theory Spec2Isabelle
  imports Complex_Main "HOL-Library.Sublist"
begin

section \<open>Values, columns and tables\<close>

text \<open>
  The code verified is the cell of \<^verbatim>\<open>nwmp_collars.ipynb\<close> under "Stage 3.
  Non-standard files" that looks for location columns: for every collar file that is not
  in GGIC format it reads the file with \<^verbatim>\<open>pd.read_csv\<close>, picks the numeric columns
  whose values are long as text, melts them into a long table and prints one line.

  A table read by \<^verbatim>\<open>pd.read_csv\<close> has named columns, each of one dtype:
  \<^verbatim>\<open>int64\<close>, \<^verbatim>\<open>float64\<close>, \<^verbatim>\<open>bool\<close> or \<^verbatim>\<open>object\<close> (text, with NaN where a
  cell is empty). The cell looks at a float only through \<^verbatim>\<open>str\<close>, and Python's
  \<^verbatim>\<open>str\<close> of a float is its shortest text that reads back to the same float, so a
  float that is not NaN is represented by that text. An \<^verbatim>\<open>int64\<close> is an integer;
  the cell does no arithmetic on it, so no wrap-around arises. The files are decoded
  with \<^verbatim>\<open>encoding='latin'\<close>: every character is one byte, a \<open>char\<close>.
\<close>

datatype float64 = Repr string | NaN

datatype scalar = PyInt int | PyFloat float64 | PyBool bool | PyStr string

datatype series =
    Int64 "int list"
  | Float64 "float64 list"
  | Boolean "bool list"
  | Object "scalar list"

record frame =
  nrows :: nat
  columns :: "(string \<times> series) list"

fun len :: "series \<Rightarrow> nat" where
  "len (Int64 xs) = length xs"
| "len (Float64 xs) = length xs"
| "len (Boolean xs) = length xs"
| "len (Object xs) = length xs"

fun values_of :: "series \<Rightarrow> scalar list" where
  "values_of (Int64 xs) = map PyInt xs"
| "values_of (Float64 xs) = map PyFloat xs"
| "values_of (Boolean xs) = map PyBool xs"
| "values_of (Object xs) = xs"

text \<open>A table is rectangular: every column has one value per row.\<close>

definition wf_frame :: "frame \<Rightarrow> bool" where
  "wf_frame df = list_all (\<lambda>c. len (snd c) = nrows df) (columns df)"

definition column_names :: "frame \<Rightarrow> string list" where
  "column_names df = map fst (columns df)"

section \<open>Python strings\<close>

text \<open>
  \<^verbatim>\<open>str.lower\<close> on Latin-1 text: the capitals A-Z (65-90) and the accented capitals
  192-222 other than the multiplication sign 215 move up by 32; every other character
  stays.
\<close>

definition lower_char :: "char \<Rightarrow> char" where
  "lower_char c =
     (let n = (of_char c :: nat)
      in if (65 \<le> n \<and> n \<le> 90) \<or> (192 \<le> n \<and> n \<le> 222 \<and> n \<noteq> 215)
         then char_of (n + 32) else c)"

definition lower :: "string \<Rightarrow> string" where
  "lower s = map lower_char s"

text \<open>\<^verbatim>\<open>sub in s\<close>: \<open>sub\<close> occurs in \<open>s\<close> as a contiguous run.\<close>

definition startswith :: "string \<Rightarrow> string \<Rightarrow> bool" where
  "startswith s sub = (take (length sub) s = sub)"

fun contains :: "string \<Rightarrow> string \<Rightarrow> bool" where
  "contains [] sub = (sub = [])"
| "contains (c # cs) sub = (startswith (c # cs) sub \<or> contains cs sub)"

text \<open>\<^verbatim>\<open>str\<close> of an integer: decimal digits, a minus sign in front when negative.\<close>

definition digit_char :: "int \<Rightarrow> char" where
  "digit_char d = ''0123456789'' ! nat (d mod 10)"

function digits :: "int \<Rightarrow> string" where
  "digits n = (if n < 10 then [digit_char n] else digits (n div 10) @ [digit_char (n mod 10)])"
  by pat_completeness auto
termination
  by (relation "measure nat") auto

definition str_int :: "int \<Rightarrow> string" where
  "str_int i = (if i < 0 then CHR ''-'' # digits (- i) else digits i)"

definition str_float :: "float64 \<Rightarrow> string" where
  "str_float x = (case x of Repr r \<Rightarrow> r | NaN \<Rightarrow> ''nan'')"

definition str_bool :: "bool \<Rightarrow> string" where
  "str_bool b = (if b then ''True'' else ''False'')"

definition str_scalar :: "scalar \<Rightarrow> string" where
  "str_scalar v =
     (case v of PyInt i \<Rightarrow> str_int i | PyFloat x \<Rightarrow> str_float x
      | PyBool b \<Rightarrow> str_bool b | PyStr s \<Rightarrow> s)"

section \<open>The pandas operations the notebook calls\<close>

text \<open>\<^verbatim>\<open>Series.astype(str)\<close> followed by \<^verbatim>\<open>.apply(len)\<close>.\<close>

fun astype_str :: "series \<Rightarrow> string list" where
  "astype_str (Int64 xs) = map str_int xs"
| "astype_str (Float64 xs) = map str_float xs"
| "astype_str (Boolean xs) = map str_bool xs"
| "astype_str (Object xs) = map str_scalar xs"

definition apply_len :: "string list \<Rightarrow> nat list" where
  "apply_len xs = map length xs"

text \<open>
  \<^verbatim>\<open>Series.median()\<close> of a column of lengths: NaN (here \<open>None\<close>) for a column with no
  value, the middle value of the sorted column for an odd count, the mean of the two
  middle values for an even count. The values are small whole numbers, so the float the
  code computes is the exact rational.
\<close>

definition median :: "nat list \<Rightarrow> rat option" where
  "median xs =
     (let s = sort xs; n = length s
      in if n = 0 then None
         else if odd n then Some (of_nat (s ! (n div 2)))
         else Some ((of_nat (s ! (n div 2 - 1)) + of_nat (s ! (n div 2))) / 2))"

text \<open>\<^verbatim>\<open>length >= 5.0\<close>: a comparison with NaN is false.\<close>

definition ge_5 :: "rat option \<Rightarrow> bool" where
  "ge_5 m = (case m of None \<Rightarrow> False | Some v \<Rightarrow> v \<ge> 5)"

text \<open>
  \<^verbatim>\<open>Index.duplicated()\<close>: for each name, whether the same name stands earlier in the
  list. \<^verbatim>\<open>df.loc[:, ~df.columns.duplicated()]\<close> keeps the columns for which it is
  false.
\<close>

fun duplicated_after :: "string list \<Rightarrow> string list \<Rightarrow> bool list" where
  "duplicated_after seen [] = []"
| "duplicated_after seen (x # xs) = (x \<in> set seen) # duplicated_after (x # seen) xs"

definition duplicated :: "string list \<Rightarrow> bool list" where
  "duplicated names = duplicated_after [] names"

definition drop_duplicated_columns :: "frame \<Rightarrow> frame" where
  "drop_duplicated_columns df =
     df\<lparr>columns := map snd (filter (\<lambda>(d, c). \<not> d) (zip (duplicated (column_names df)) (columns df)))\<rparr>"

text \<open>\<^verbatim>\<open>df.columns = [x.lower() for x in df.columns]\<close>.\<close>

definition lower_columns :: "frame \<Rightarrow> frame" where
  "lower_columns df = df\<lparr>columns := map (\<lambda>(n, s). (lower n, s)) (columns df)\<rparr>"

text \<open>\<^verbatim>\<open>df.select_dtypes(np.number).columns.tolist()\<close>: the integer and float columns.\<close>

fun is_number :: "series \<Rightarrow> bool" where
  "is_number (Int64 xs) = True"
| "is_number (Float64 xs) = True"
| "is_number (Boolean xs) = False"
| "is_number (Object xs) = False"

definition select_dtypes_number :: "frame \<Rightarrow> string list" where
  "select_dtypes_number df = map fst (filter (\<lambda>(n, s). is_number s) (columns df))"

datatype exn = ReadError | KeyError | ValueError

text \<open>
  \<^verbatim>\<open>df[k]\<close> for one name: the column of that name, KeyError (here \<open>None\<close>) when there
  is none. The notebook indexes only tables whose names are already de-duplicated, where
  the column is the one with that name.
\<close>

definition getitem :: "frame \<Rightarrow> string \<Rightarrow> series option" where
  "getitem df k = map_of (columns df) k"

text \<open>
  \<^verbatim>\<open>df[k] = v\<close> for a scalar \<open>v\<close>: the column named \<open>k\<close> becomes \<open>v\<close> in every row
  if the table has one, keeping its place; otherwise a new last column.
\<close>

definition setitem :: "frame \<Rightarrow> string \<Rightarrow> scalar \<Rightarrow> frame" where
  "setitem df k v =
     (let s = Object (replicate (nrows df) v)
      in if k \<in> set (column_names df)
         then df\<lparr>columns := map (\<lambda>(n, c). if n = k then (n, s) else (n, c)) (columns df)\<rparr>
         else df\<lparr>columns := columns df @ [(k, s)]\<rparr>)"

text \<open>
  \<^verbatim>\<open>df[[k1, k2, ...]]\<close>: the named columns in the order asked, a name asked twice
  giving the column twice; KeyError when a name is missing.
\<close>

fun take_columns :: "(string \<times> series) list \<Rightarrow> string list \<Rightarrow> (string \<times> series) list option" where
  "take_columns cols [] = Some []"
| "take_columns cols (k # ks) =
     (case map_of cols k of
        None \<Rightarrow> None
      | Some s \<Rightarrow> (case take_columns cols ks of None \<Rightarrow> None | Some r \<Rightarrow> Some ((k, s) # r)))"

definition getitem_list :: "frame \<Rightarrow> string list \<Rightarrow> exn + frame" where
  "getitem_list df ks =
     (case take_columns (columns df) ks of
        None \<Rightarrow> Inl KeyError
      | Some cs \<Rightarrow> Inr (df\<lparr>columns := cs\<rparr>))"

text \<open>\<^verbatim>\<open>np.tile(values, k)\<close>: the column repeated \<open>k\<close> times, end to end.\<close>

fun tile :: "nat \<Rightarrow> series \<Rightarrow> series" where
  "tile k (Int64 xs) = Int64 (concat (replicate k xs))"
| "tile k (Float64 xs) = Float64 (concat (replicate k xs))"
| "tile k (Boolean xs) = Boolean (concat (replicate k xs))"
| "tile k (Object xs) = Object (concat (replicate k xs))"

text \<open>\<^verbatim>\<open>pandas.unique\<close>: each name once, in the order of first appearance.\<close>

definition unique :: "string list \<Rightarrow> string list" where
  "unique xs = map snd (filter (\<lambda>(d, x). \<not> d) (zip (duplicated xs) xs))"

text \<open>
  \<^verbatim>\<open>pd.melt(df, id_vars=[id_var], value_vars=value_vars)\<close> in the pandas 1 releases
  of the notebook's time, on a table with distinct column names and with distinct value
  variables (the cell's are). A name that is not a column is a KeyError. The table is
  cut down to the identifier column and the value columns, the identifier column is
  taken out, and the result has one row per cell of the remaining \<open>K\<close> columns, column
  after column: the identifier column repeated \<open>K\<close> times, the name of the cell's column
  under \<^verbatim>\<open>variable\<close>, the cell under \<^verbatim>\<open>value\<close>. Columns that are neither the
  identifier nor a value column are not in the result. A column that is itself named
  \<^verbatim>\<open>value\<close> only draws a warning. (pandas stores the values in one array and turns
  integers into floats when the columns are mixed; the model keeps each value as read.)

  When the identifier column is itself listed as a value column, pandas releases differ:
  the older ones select it twice (\<^verbatim>\<open>frame.loc[:, id_vars + value_vars]\<close>) and fail
  while building the result, the newer ones select every column once
  (\<^verbatim>\<open>algos.unique\<close> of the column positions), so that it is taken out with the
  identifier and contributes no row. Which one runs is a parameter of the model.
\<close>

datatype melt_overlap = OverlapRaises | OverlapSelectedOnce

definition melt :: "melt_overlap \<Rightarrow> frame \<Rightarrow> string \<Rightarrow> string list \<Rightarrow> exn + frame" where
  "melt pol df id_var value_vars =
     (if \<not> set (id_var # value_vars) \<subseteq> set (column_names df) then Inl KeyError
      else if id_var \<in> set value_vars \<and> pol = OverlapRaises then Inl ValueError
      else
        (case take_columns (columns df) (unique (id_var # value_vars)) of
           None \<Rightarrow> Inl KeyError
         | Some sel \<Rightarrow>
             (case map_of sel id_var of
                None \<Rightarrow> Inl KeyError
              | Some id_data \<Rightarrow>
                  (let N = nrows df;
                       K = length sel - 1;
                       rest = filter (\<lambda>(n, s). n \<noteq> id_var) sel
                   in Inr \<lparr>nrows = N * K,
                           columns =
                             [(id_var, tile K id_data),
                              (''variable'', Object (concat (map (\<lambda>(n, s). replicate N (PyStr n)) rest))),
                              (''value'', Object (concat (map (\<lambda>(n, s). values_of s) rest)))]\<rparr>))))"

text \<open>The rows of a table, each as its fields in column order.\<close>

definition rows :: "frame \<Rightarrow> (string \<times> scalar) list list" where
  "rows df = map (\<lambda>i. map (\<lambda>(n, s). (n, values_of s ! i)) (columns df)) [0..<nrows df]"

section \<open>Stage 3 of the notebook: locations in the non-standard files\<close>

text \<open>
  The two lines under \<^verbatim>\<open># Drop duplicate columns\<close>: lower-case the names, then keep
  the first column of every name.
\<close>

definition normalize_columns :: "frame \<Rightarrow> frame" where
  "normalize_columns df = drop_duplicated_columns (lower_columns df)"

definition numbered_columns :: "frame \<Rightarrow> string list" where
  "numbered_columns sub_df = select_dtypes_number sub_df"

definition potential_ids :: "frame \<Rightarrow> string list" where
  "potential_ids sub_df = filter (\<lambda>x. contains (lower x) ''hole'') (column_names sub_df)"

text \<open>
  \<^verbatim>\<open>for k in numbered_columns:\<close> the median length of the column's values as text;
  the name is appended when it is at least 5.
\<close>

definition median_length :: "series \<Rightarrow> rat option" where
  "median_length s = median (apply_len (astype_str s))"

fun locations_loop :: "frame \<Rightarrow> string list \<Rightarrow> string list \<Rightarrow> exn + string list" where
  "locations_loop sub_df [] acc = Inr acc"
| "locations_loop sub_df (k # ks) acc =
     (case getitem sub_df k of
        None \<Rightarrow> Inl KeyError
      | Some s \<Rightarrow> locations_loop sub_df ks (if ge_5 (median_length s) then acc @ [k] else acc))"

definition potential_locations :: "frame \<Rightarrow> exn + string list" where
  "potential_locations sub_df = locations_loop sub_df (numbered_columns sub_df) []"

datatype message =
    LocationsExtracted string
  | NoLocationsFound string
  | ErrorReadingFile string

record state =
  sub_df_list :: "frame list"
  printed :: "message list"

text \<open>
  The four statements under \<^verbatim>\<open>if len(potential_locations) > 0:\<close> that build the
  long table: the identifier becomes the column \<^verbatim>\<open>report_id\<close>, the working table is
  \<^verbatim>\<open>report_id\<close>, the potential locations and the identifier columns, its repeated
  names are dropped, and it is melted with \<^verbatim>\<open>report_id\<close> as the only identifier
  variable.
\<close>

definition extract_locations :: "melt_overlap \<Rightarrow> string \<Rightarrow> frame \<Rightarrow> string list \<Rightarrow> exn + frame" where
  "extract_locations pol key sub_df locs =
     (let sub_df1 = setitem sub_df ''report_id'' (PyStr key)
      in case getitem_list sub_df1 ([''report_id''] @ locs @ potential_ids sub_df) of
           Inl e \<Rightarrow> Inl e
         | Inr sub_df2 \<Rightarrow> melt pol (drop_duplicated_columns sub_df2) ''report_id'' locs)"

text \<open>
  The body of \<^verbatim>\<open>try\<close> after the file is read. An exception (\<open>Inl\<close>) leaves the
  block; the only statements that change \<^verbatim>\<open>sub_df_list\<close> or print come after the last
  call that can raise, so a block that raises has changed nothing.
\<close>

definition try_block :: "melt_overlap \<Rightarrow> string \<Rightarrow> frame \<Rightarrow> state \<Rightarrow> exn + state" where
  "try_block pol key df st =
     (let sub_df = normalize_columns df
      in case potential_locations sub_df of
           Inl e \<Rightarrow> Inl e
         | Inr locs \<Rightarrow>
             (case (if length locs > 0
                    then (case extract_locations pol key sub_df locs of
                            Inl e \<Rightarrow> Inl e
                          | Inr sub_df_a \<Rightarrow>
                              Inr (st\<lparr>sub_df_list := sub_df_list st @ [sub_df_a],
                                       printed := printed st @ [LocationsExtracted key]\<rparr>))
                    else Inr st) of
                Inl e \<Rightarrow> Inl e
              | Inr st1 \<Rightarrow>
                  Inr (if length locs = 0
                       then st1\<lparr>printed := printed st1 @ [NoLocationsFound key]\<rparr>
                       else st1)))"

text \<open>
  One turn of \<^verbatim>\<open>for key, value in other.items():\<close>. Reading the file is the world's
  part: \<open>read_csv\<close> gives the table or raises. The bare \<^verbatim>\<open>except:\<close> catches every
  exception of the block and prints the error line.
\<close>

definition loop_body :: "(string \<Rightarrow> exn + frame) \<Rightarrow> melt_overlap \<Rightarrow> state \<Rightarrow> string \<times> string \<Rightarrow> state" where
  "loop_body read_csv pol st kv =
     (case kv of (key, value) \<Rightarrow>
        (case read_csv value of
           Inl e \<Rightarrow> st\<lparr>printed := printed st @ [ErrorReadingFile key]\<rparr>
         | Inr df \<Rightarrow>
             (case try_block pol key df st of
                Inl e \<Rightarrow> st\<lparr>printed := printed st @ [ErrorReadingFile key]\<rparr>
              | Inr st' \<Rightarrow> st')))"

definition stage3_from :: "(string \<Rightarrow> exn + frame) \<Rightarrow> melt_overlap \<Rightarrow> state \<Rightarrow> (string \<times> string) list \<Rightarrow> state" where
  "stage3_from read_csv pol st other = foldl (loop_body read_csv pol) st other"

definition stage3 :: "(string \<Rightarrow> exn + frame) \<Rightarrow> melt_overlap \<Rightarrow> (string \<times> string) list \<Rightarrow> state" where
  "stage3 read_csv pol other = stage3_from read_csv pol \<lparr>sub_df_list = [], printed = []\<rparr> other"

section \<open>Notions used in the statements\<close>

text \<open>
  Keeping the first entry of every key, given the keys already seen: what the mask of
  \<open>duplicated_after\<close> keeps.
\<close>

definition keep_first :: "('a \<Rightarrow> string) \<Rightarrow> string list \<Rightarrow> 'a list \<Rightarrow> 'a list" where
  "keep_first g seen ps = map snd (filter (\<lambda>(d, c). \<not> d) (zip (duplicated_after seen (map g ps)) ps))"

text \<open>
  The Coordinate Columns in the specification's words: the numeric-typed columns whose
  values, as text, have a median length of at least 5. The code's
  \<open>potential_locations\<close> is compared with it.
\<close>

definition coordinate_columns :: "frame \<Rightarrow> string list" where
  "coordinate_columns d = map fst (filter (\<lambda>(k, s). is_number s \<and> ge_5 (median_length s)) (columns d))"

text \<open>
  The long table with the columns \<^verbatim>\<open>report_id\<close>, \<^verbatim>\<open>variable\<close>, \<^verbatim>\<open>value\<close> that
  holds the cells of the columns \<open>vs\<close> of \<open>d\<close>, every row tagged \<open>key\<close>.
\<close>

definition melted :: "frame \<Rightarrow> string \<Rightarrow> string list \<Rightarrow> frame" where
  "melted d key vs =
     \<lparr>nrows = nrows d * length vs,
      columns =
        [(''report_id'', Object (replicate (length vs * nrows d) (PyStr key))),
         (''variable'', Object (concat (map (\<lambda>k. replicate (nrows d) (PyStr k)) vs))),
         (''value'', Object (concat (map (\<lambda>k. values_of (the (map_of (columns d) k))) vs)))]\<rparr>"

text \<open>
  The median in the specification's words, without sorting: of the lengths \<open>ls\<close>, \<open>a\<close> is
  the smallest one that has at least half of them at or below it and \<open>b\<close> the largest
  one that has at least half of them at or above it. They are the two middle values (one
  and the same for an odd count), and the median is their mean. No list has middle
  values when it is empty. The code's \<open>median\<close> is compared with it.
\<close>

definition middle_values :: "nat list \<Rightarrow> nat \<Rightarrow> nat \<Rightarrow> bool" where
  "middle_values ls a b \<longleftrightarrow>
     a \<in> set ls \<and> b \<in> set ls
     \<and> length ls \<le> 2 * length (filter (\<lambda>x. x \<le> a) ls)
     \<and> (\<forall>v \<in> set ls. length ls \<le> 2 * length (filter (\<lambda>x. x \<le> v) ls) \<longrightarrow> a \<le> v)
     \<and> length ls \<le> 2 * length (filter (\<lambda>x. b \<le> x) ls)
     \<and> (\<forall>v \<in> set ls. length ls \<le> 2 * length (filter (\<lambda>x. v \<le> x) ls) \<longrightarrow> v \<le> b)"

definition init_state :: state where
  "init_state = \<lparr>sub_df_list = [], printed = []\<rparr>"

section \<open>Example tables\<close>

text \<open>
  The tables of the specification's Scenario 1 and Scenario 2, and small tables for the
  cases the claims turn on.
\<close>

definition scenario1 :: frame where
  "scenario1 =
     \<lparr>nrows = 1,
      columns = [(''Easting'', Float64 [Repr ''451234.56'']),
                 (''Northing'', Float64 [Repr ''7845321.12'']),
                 (''Hole_ID'', Object [PyStr ''DH001''])]\<rparr>"

definition scenario2 :: frame where
  "scenario2 = \<lparr>nrows = 1, columns = [(''ID'', Int64 [42]), (''Depth'', Int64 [120])]\<rparr>"

definition unreadable_second :: "string \<Rightarrow> exn + frame" where
  "unreadable_second url = (if url = ''s3://b'' then Inl ReadError else Inr scenario1)"

definition mostly_missing :: frame where
  "mostly_missing = \<lparr>nrows = 3, columns = [(''east'', Float64 [NaN, Repr ''1234567.89'', NaN])]\<rparr>"

definition half_missing :: frame where
  "half_missing = \<lparr>nrows = 2, columns = [(''east'', Float64 [NaN, Repr ''1234567.89''])]\<rparr>"

definition no_rows :: frame where
  "no_rows = \<lparr>nrows = 0, columns = [(''east'', Float64 []), (''hole'', Object [])]\<rparr>"


definition hole_numbers :: frame where
  "hole_numbers =
     \<lparr>nrows = 2,
      columns = [(''Hole_No'', Int64 [1, 2]),
                 (''Easting'', Float64 [Repr ''451234.56'', Repr ''451300.12'']),
                 (''Comments'', Object [PyStr ''abandoned'', PyFloat NaN])]\<rparr>"

definition report_id_only :: frame where
  "report_id_only = \<lparr>nrows = 2, columns = [(''Report_ID'', Int64 [100234, 100235])]\<rparr>"

definition report_id_and_easting :: frame where
  "report_id_and_easting =
     \<lparr>nrows = 2,
      columns = [(''Report_ID'', Int64 [100234, 100235]),
                 (''Easting'', Float64 [Repr ''451234.56'', Repr ''451300.12''])]\<rparr>"

text \<open>
  A table at the threshold: lengths 4 and 6 (median 5), 4 and 5 (median 4.5), two
  negative integers of 5 characters with the sign, two negative floats of 5 and 6
  characters with sign and point, a float column with a missing value, and a text
  column whose values have 5 characters.
\<close>

definition threshold_table :: frame where
  "threshold_table =
     \<lparr>nrows = 2,
      columns = [(''RL'', Int64 [1234, 123456]),
                 (''Depth'', Int64 [1234, 12345]),
                 (''Azimuth'', Int64 [-1205, -1190]),
                 (''Lat'', Float64 [Repr ''-20.5'', Repr ''-19.75'']),
                 (''Dip'', Float64 [Repr ''-60.0'', NaN]),
                 (''Hole'', Object [PyStr ''DH001'', PyStr ''DH002''])]\<rparr>"

section \<open>Lists with first occurrences kept\<close>

lemma keep_first_Nil [simp]: "keep_first g seen [] = []"
  by (simp add: keep_first_def)

lemma keep_first_Cons [simp]:
  "keep_first g seen (p # ps) =
     (if g p \<in> set seen then keep_first g (g p # seen) ps else p # keep_first g (g p # seen) ps)"
  by (simp add: keep_first_def)

lemma keep_first_filter:
  "keep_first g seen ps = filter (\<lambda>p. g p \<notin> set seen) (keep_first g [] ps)"
proof (induction ps arbitrary: seen)
  case Nil
  show ?case by simp
next
  case (Cons p ps)
  have a: "keep_first g (g p # seen) ps = filter (\<lambda>q. g q \<notin> set (g p # seen)) (keep_first g [] ps)"
    by (rule Cons.IH)
  have b: "keep_first g [g p] ps = filter (\<lambda>q. g q \<notin> set [g p]) (keep_first g [] ps)"
    by (rule Cons.IH)
  show ?case
    by (simp add: a b conj_commute cong: filter_cong)
qed

lemma set_keep_first: "g ` set (keep_first g seen ps) = g ` set ps - set seen"
  by (induction ps arbitrary: seen) auto

lemma distinct_keep_first: "distinct (map g (keep_first g seen ps))"
proof (induction ps arbitrary: seen)
  case Nil
  show ?case by simp
next
  case (Cons p ps)
  have "g p \<notin> g ` set (keep_first g (g p # seen) ps)"
    by (simp add: set_keep_first)
  with Cons.IH show ?case by simp
qed

lemma keep_first_distinct:
  "distinct (map g ps) \<Longrightarrow> keep_first g seen ps = filter (\<lambda>p. g p \<notin> set seen) ps"
proof (induction ps arbitrary: seen)
  case Nil
  show ?case by simp
next
  case (Cons p ps)
  then have ih: "keep_first g (g p # seen) ps = filter (\<lambda>q. g q \<notin> set (g p # seen)) ps"
    by simp
  from Cons.prems have "g p \<notin> g ` set ps" by simp
  then have "\<forall>q \<in> set ps. g q \<noteq> g p" by (metis image_eqI)
  then have "filter (\<lambda>q. g q \<notin> set (g p # seen)) ps = filter (\<lambda>q. g q \<notin> set seen) ps"
    by (auto intro: filter_cong)
  with ih show ?case by simp
qed

lemma map_of_keep_first:
  "map_of (keep_first fst seen ps) k = (if k \<in> set seen then None else map_of ps k)"
  by (induction ps arbitrary: seen) auto


lemma columns_drop_duplicated:
  "columns (drop_duplicated_columns df) = keep_first fst [] (columns df)"
  by (simp add: drop_duplicated_columns_def keep_first_def duplicated_def column_names_def)

lemma nrows_drop_duplicated [simp]: "nrows (drop_duplicated_columns df) = nrows df"
  by (simp add: drop_duplicated_columns_def)

lemma nrows_normalize [simp]: "nrows (normalize_columns df) = nrows df"
  by (simp add: normalize_columns_def lower_columns_def)

lemma distinct_normalize: "distinct (column_names (normalize_columns df))"
  by (simp add: normalize_columns_def column_names_def columns_drop_duplicated distinct_keep_first)


lemma unique_keep_first: "unique xs = keep_first id [] xs"
  by (simp add: unique_def keep_first_def duplicated_def)

lemma unique_Cons_distinct:
  "distinct xs \<Longrightarrow> unique (x # xs) = x # filter (\<lambda>y. y \<noteq> x) xs"
  using keep_first_distinct [of id xs "[x]"] by (simp add: unique_keep_first)

lemma take_columns_map:
  "(\<And>k. k \<in> set ks \<Longrightarrow> map_of cols k = Some (f k)) \<Longrightarrow>
   take_columns cols ks = Some (map (\<lambda>k. (k, f k)) ks)"
  by (induction ks) auto

lemma map_of_graph:
  "map_of (map (\<lambda>k. (k, f k)) ks) k = (if k \<in> set ks then Some (f k) else None)"
  by (induction ks) auto

lemma map_of_distinct_member:
  "distinct (map fst cols) \<Longrightarrow> (k, s) \<in> set cols \<Longrightarrow> map_of cols k = Some s"
  by simp

lemma locations_loop_filter:
  "set ks \<subseteq> set (column_names d) \<Longrightarrow>
   locations_loop d ks acc =
     Inr (acc @ filter (\<lambda>k. case getitem d k of None \<Rightarrow> False | Some s \<Rightarrow> ge_5 (median_length s)) ks)"
proof (induction ks arbitrary: acc)
  case Nil
  show ?case by simp
next
  case (Cons k ks)
  from Cons.prems have "k \<in> fst ` set (columns d)"
    by (simp add: column_names_def)
  then obtain s where s: "getitem d k = Some s"
    by (cases "map_of (columns d) k") (auto simp: getitem_def map_of_eq_None_iff)
  from Cons.prems have "set ks \<subseteq> set (column_names d)" by simp
  from Cons.IH [OF this] s show ?case by simp
qed

lemma filter_map_fst_distinct:
  "distinct (map fst cols) \<Longrightarrow>
   filter (\<lambda>k. case map_of cols k of None \<Rightarrow> False | Some s \<Rightarrow> Q s) (map fst (filter (\<lambda>(n, s). P s) cols))
     = map fst (filter (\<lambda>(n, s). P s \<and> Q s) cols)"
proof -
  assume d: "distinct (map fst cols)"
  have "filter (\<lambda>c. (case c of (n, s) \<Rightarrow> P s) \<and> (case map_of cols (fst c) of None \<Rightarrow> False | Some s \<Rightarrow> Q s)) cols
      = filter (\<lambda>(n, s). P s \<and> Q s) cols"
    using d by (intro filter_cong) auto
  then show ?thesis
    by (simp add: filter_map comp_def)
qed

lemma potential_locations_coordinate_columns:
  "distinct (column_names d) \<Longrightarrow> potential_locations d = Inr (coordinate_columns d)"
proof -
  assume d: "distinct (column_names d)"
  have sub: "set (numbered_columns d) \<subseteq> set (column_names d)"
    by (auto simp: numbered_columns_def select_dtypes_number_def column_names_def)
  show ?thesis
    unfolding potential_locations_def locations_loop_filter [OF sub]
    using filter_map_fst_distinct [of "columns d" "\<lambda>s. ge_5 (median_length s)" is_number] d
    by (simp add: numbered_columns_def select_dtypes_number_def coordinate_columns_def
        getitem_def column_names_def)
qed

section \<open>The extraction step\<close>

lemma concat_replicate_replicate:
  "concat (replicate k (replicate n x)) = replicate (k * n) x"
  by (induction k) (simp_all add: replicate_add)

lemma map_of_set_column:
  "map_of (map (\<lambda>(n, c). if n = r then (n, s) else (n, c)) cols) k =
     (if k = r then (if r \<in> fst ` set cols then Some s else None) else map_of cols k)"
  by (induction cols) (force simp: image_iff)+

lemma map_of_setitem:
  "map_of (columns (setitem d r v)) k =
     (if k = r then Some (Object (replicate (nrows d) v)) else map_of (columns d) k)"
proof (cases "r \<in> set (column_names d)")
  case True
  then show ?thesis
    by (simp add: setitem_def Let_def map_of_set_column column_names_def)
next
  case False
  then have "map_of (columns d) r = None"
    by (simp add: column_names_def map_of_eq_None_iff)
  with False show ?thesis
    by (simp add: setitem_def Let_def map_add_def split: option.splits)
qed

lemma nrows_setitem [simp]: "nrows (setitem d r v) = nrows d"
  by (simp add: setitem_def Let_def)

lemma potential_ids_subset: "set (potential_ids d) \<subseteq> set (column_names d)"
  by (auto simp: potential_ids_def)

lemma extract_locations_eq:
  assumes locs: "set locs \<subseteq> set (column_names d)" and dl: "distinct locs"
  shows "extract_locations pol key d locs =
           (if ''report_id'' \<in> set locs \<and> pol = OverlapRaises then Inl ValueError
            else Inr (melted d key (filter (\<lambda>k. k \<noteq> ''report_id'') locs)))"
proof -
  let ?rid = "''report_id''"
  define kc where "kc = Object (replicate (nrows d) (PyStr key))"
  define f1 where "f1 k = (if k = ?rid then kc else the (map_of (columns d) k))" for k
  define d1 where "d1 = setitem d ?rid (PyStr key)"
  define ks where "ks = [?rid] @ locs @ potential_ids d"
  define vs where "vs = filter (\<lambda>k. k \<noteq> ?rid) locs"
  have in_d: "map_of (columns d) k = Some (the (map_of (columns d) k))" if "k \<in> set (column_names d)" for k
  proof -
    from that have "map_of (columns d) k \<noteq> None"
      by (simp add: column_names_def map_of_eq_None_iff)
    then show ?thesis by auto
  qed
  have m1: "map_of (columns d1) k = Some (f1 k)" if "k \<in> set ks" for k
  proof (cases "k = ?rid")
    case True
    then show ?thesis by (simp add: d1_def map_of_setitem f1_def kc_def)
  next
    case False
    with that locs potential_ids_subset [of d] have "k \<in> set (column_names d)"
      by (auto simp: ks_def)
    from in_d [OF this] False show ?thesis
      by (simp add: d1_def map_of_setitem f1_def)
  qed
  have t1: "take_columns (columns d1) ks = Some (map (\<lambda>k. (k, f1 k)) ks)"
    by (rule take_columns_map) (rule m1)
  define d2 where "d2 = d1\<lparr>columns := map (\<lambda>k. (k, f1 k)) ks\<rparr>"
  have g1: "getitem_list d1 ks = Inr d2"
    by (simp add: getitem_list_def t1 d2_def)
  define d3 where "d3 = drop_duplicated_columns d2"
  have m3: "map_of (columns d3) k = (if k \<in> set ks then Some (f1 k) else None)" for k
    by (simp add: d3_def columns_drop_duplicated map_of_keep_first d2_def map_of_graph)
  have n3: "set (column_names d3) = set ks"
    using set_keep_first [of fst "[]" "columns d2"]
    by (simp add: d3_def columns_drop_duplicated column_names_def d2_def image_comp comp_def)
  have r3: "nrows d3 = nrows d"
    by (simp add: d3_def d2_def d1_def)
  have sub3: "set (?rid # locs) \<subseteq> set (column_names d3)"
    by (auto simp: n3 ks_def)
  have u: "unique (?rid # locs) = ?rid # vs"
    by (simp add: unique_Cons_distinct [OF dl] vs_def)
  have t3: "take_columns (columns d3) (?rid # vs) = Some (map (\<lambda>k. (k, f1 k)) (?rid # vs))"
    by (rule take_columns_map) (auto simp: m3 ks_def vs_def)
  have rest: "filter (\<lambda>(n, s). n \<noteq> ?rid) (map (\<lambda>k. (k, f1 k)) vs) = map (\<lambda>k. (k, f1 k)) vs"
    by (simp add: filter_map comp_def vs_def)
  have vals: "map (\<lambda>k. values_of (f1 k)) vs = map (\<lambda>k. values_of (the (map_of (columns d) k))) vs"
    by (rule map_cong) (auto simp: vs_def f1_def)
  have frid: "f1 ?rid = kc"
    by (simp add: f1_def)
  have m: "melt pol d3 ?rid locs =
             (if ?rid \<in> set locs \<and> pol = OverlapRaises then Inl ValueError
              else Inr (melted d key vs))"
    using sub3
    by (simp add: melt_def u t3 frid kc_def r3 rest melted_def comp_def
        concat_replicate_replicate vals Let_def
        del: set_simps take_columns.simps)
  have "extract_locations pol key d locs =
          (case getitem_list d1 ks of
             Inl e \<Rightarrow> Inl e
           | Inr sub_df2 \<Rightarrow> melt pol (drop_duplicated_columns sub_df2) ?rid locs)"
    by (simp add: extract_locations_def Let_def d1_def ks_def)
  also have "\<dots> = melt pol d3 ?rid locs"
    by (simp add: g1 d3_def)
  also note m
  finally show ?thesis
    by (simp add: vs_def)
qed

section \<open>The loop\<close>

lemma coordinate_columns_subset: "set (coordinate_columns d) \<subseteq> set (column_names d)"
  by (auto simp: coordinate_columns_def column_names_def)

lemma distinct_coordinate_columns:
  "distinct (column_names d) \<Longrightarrow> distinct (coordinate_columns d)"
  by (simp add: coordinate_columns_def column_names_def distinct_map_filter)

lemma try_block_eq:
  "try_block pol key df st =
     (let d = normalize_columns df; locs = coordinate_columns d
      in if locs = [] then Inr (st\<lparr>printed := printed st @ [NoLocationsFound key]\<rparr>)
         else if ''report_id'' \<in> set locs \<and> pol = OverlapRaises then Inl ValueError
         else Inr (st\<lparr>sub_df_list := sub_df_list st @ [melted d key (filter (\<lambda>k. k \<noteq> ''report_id'') locs)],
                       printed := printed st @ [LocationsExtracted key]\<rparr>))"
proof -
  let ?d = "normalize_columns df"
  have p: "potential_locations ?d = Inr (coordinate_columns ?d)"
    by (rule potential_locations_coordinate_columns) (rule distinct_normalize)
  have e: "extract_locations pol key ?d (coordinate_columns ?d) =
             (if ''report_id'' \<in> set (coordinate_columns ?d) \<and> pol = OverlapRaises then Inl ValueError
              else Inr (melted ?d key (filter (\<lambda>k. k \<noteq> ''report_id'') (coordinate_columns ?d))))"
    by (rule extract_locations_eq)
      (simp_all add: coordinate_columns_subset distinct_coordinate_columns distinct_normalize)
  show ?thesis
    by (simp add: try_block_def Let_def p e)
qed

lemma loop_body_additive:
  "loop_body read_csv pol st kv =
     st\<lparr>sub_df_list := sub_df_list st @ sub_df_list (loop_body read_csv pol init_state kv),
        printed := printed st @ printed (loop_body read_csv pol init_state kv)\<rparr>"
  by (cases kv) (simp add: loop_body_def try_block_eq Let_def init_state_def split: sum.splits)

lemma stage3_from_additive:
  "stage3_from read_csv pol st other =
     st\<lparr>sub_df_list := sub_df_list st @ sub_df_list (stage3_from read_csv pol init_state other),
        printed := printed st @ printed (stage3_from read_csv pol init_state other)\<rparr>"
proof (induction other arbitrary: st)
  case Nil
  show ?case by (simp add: stage3_from_def init_state_def)
next
  case (Cons kv other)
  define bi where "bi = loop_body read_csv pol init_state kv"
  define rest where "rest = stage3_from read_csv pol init_state other"
  have d: "loop_body read_csv pol st kv =
             st\<lparr>sub_df_list := sub_df_list st @ sub_df_list bi, printed := printed st @ printed bi\<rparr>"
    unfolding bi_def by (rule loop_body_additive)
  have a: "stage3_from read_csv pol st (kv # other) =
             (loop_body read_csv pol st kv)
               \<lparr>sub_df_list := sub_df_list (loop_body read_csv pol st kv) @ sub_df_list rest,
                printed := printed (loop_body read_csv pol st kv) @ printed rest\<rparr>"
    using Cons.IH [of "loop_body read_csv pol st kv"] by (simp add: stage3_from_def rest_def)
  have c: "stage3_from read_csv pol init_state (kv # other) =
             bi\<lparr>sub_df_list := sub_df_list bi @ sub_df_list rest, printed := printed bi @ printed rest\<rparr>"
    using Cons.IH [of bi] by (simp add: stage3_from_def rest_def bi_def)
  show ?case
    unfolding a c unfolding d by simp
qed

lemma stage3_from_append:
  "stage3_from read_csv pol st (xs @ ys) = stage3_from read_csv pol (stage3_from read_csv pol st xs) ys"
  by (simp add: stage3_from_def)

lemma length_concat_const:
  "(\<And>k. k \<in> set vs \<Longrightarrow> length (f k) = n) \<Longrightarrow> length (concat (map f vs)) = length vs * n"
  by (induction vs) simp_all

lemma length_values_of [simp]: "length (values_of s) = len s"
  by (cases s) simp_all

lemma wf_melted:
  assumes wf: "wf_frame d" and sub: "set vs \<subseteq> set (column_names d)"
  shows "wf_frame (melted d key vs)"
proof -
  have v: "length (values_of (the (map_of (columns d) k))) = nrows d" if "k \<in> set vs" for k
  proof -
    from that sub have "k \<in> fst ` set (columns d)" by (auto simp: column_names_def)
    then obtain s where s: "map_of (columns d) k = Some s"
      by (cases "map_of (columns d) k") (auto simp: map_of_eq_None_iff)
    then have "(k, s) \<in> set (columns d)" by (rule map_of_SomeD)
    with wf have "len s = nrows d" by (auto simp: wf_frame_def list_all_iff)
    with s show ?thesis by simp
  qed
  have "length (concat (map (\<lambda>k. values_of (the (map_of (columns d) k))) vs)) = length vs * nrows d"
    by (rule length_concat_const) (rule v)
  moreover have "length (concat (map (\<lambda>k. replicate (nrows d) (PyStr k)) vs)) = length vs * nrows d"
    by (rule length_concat_const) simp
  ultimately show ?thesis
    by (simp add: wf_frame_def melted_def mult.commute)
qed

lemma length_rows [simp]: "length (rows a) = nrows a"
  by (simp add: rows_def)

lemma rows_melted_report_id:
  "r \<in> set (rows (melted d key vs)) \<Longrightarrow> map_of r ''report_id'' = Some (PyStr key)"
  by (auto simp: rows_def melted_def mult.commute)

section \<open>The median of a column that is mostly one value\<close>

lemma sorted_count_below:
  fixes xs :: "nat list"
  assumes "sorted xs" "i < length xs" "xs ! i < v"
  shows "length (filter (\<lambda>x. x = v) xs) \<le> length xs - Suc i"
proof -
  have "x \<noteq> v" if "x \<in> set (take (Suc i) xs)" for x
  proof -
    from that obtain j where j: "j < Suc i" "j < length xs" "x = xs ! j"
      by (auto simp: in_set_conv_nth)
    with assms have "xs ! j \<le> xs ! i"
      by (intro sorted_nth_mono) auto
    with j assms(3) show ?thesis by simp
  qed
  then have e: "filter (\<lambda>x. x = v) (take (Suc i) xs) = []"
    by (auto simp: filter_empty_conv)
  have "filter (\<lambda>x. x = v) xs = filter (\<lambda>x. x = v) (take (Suc i) xs @ drop (Suc i) xs)"
    by simp
  also have "\<dots> = filter (\<lambda>x. x = v) (drop (Suc i) xs)"
    unfolding filter_append e by simp
  finally have "length (filter (\<lambda>x. x = v) xs) = length (filter (\<lambda>x. x = v) (drop (Suc i) xs))"
    by (rule arg_cong)
  also have "\<dots> \<le> length (drop (Suc i) xs)"
    by (rule length_filter_le)
  finally show ?thesis by simp
qed

lemma sorted_count_above:
  fixes xs :: "nat list"
  assumes "sorted xs" "i < length xs" "v < xs ! i"
  shows "length (filter (\<lambda>x. x = v) xs) \<le> i"
proof -
  have "x \<noteq> v" if "x \<in> set (drop i xs)" for x
  proof -
    from that obtain j where j: "j < length xs - i" "x = xs ! (i + j)"
      by (auto simp: in_set_conv_nth)
    with assms have "xs ! i \<le> xs ! (i + j)"
      by (intro sorted_nth_mono) auto
    with j assms(3) show ?thesis by simp
  qed
  then have e: "filter (\<lambda>x. x = v) (drop i xs) = []"
    by (auto simp: filter_empty_conv)
  have "filter (\<lambda>x. x = v) xs = filter (\<lambda>x. x = v) (take i xs @ drop i xs)"
    by simp
  also have "\<dots> = filter (\<lambda>x. x = v) (take i xs)"
    unfolding filter_append e by simp
  finally have "length (filter (\<lambda>x. x = v) xs) = length (filter (\<lambda>x. x = v) (take i xs))"
    by (rule arg_cong)
  also have "\<dots> \<le> length (take i xs)"
    by (rule length_filter_le)
  finally show ?thesis by simp
qed

lemma sorted_majority_nth:
  fixes xs :: "nat list"
  assumes s: "sorted xs" and m: "length xs < 2 * length (filter (\<lambda>x. x = v) xs)"
    and i: "i < length xs" "2 * i \<le> length xs" "length xs \<le> 2 * i + 2"
  shows "xs ! i = v"
proof (rule ccontr)
  assume "xs ! i \<noteq> v"
  then consider "xs ! i < v" | "v < xs ! i" by linarith
  then show False
  proof cases
    case 1
    from sorted_count_below [OF s i(1) 1] m i show False by linarith
  next
    case 2
    from sorted_count_above [OF s i(1) 2] m i show False by linarith
  qed
qed

lemma median_majority:
  assumes m: "length xs < 2 * length (filter (\<lambda>x. x = v) xs)"
  shows "median xs = Some (of_nat v)"
proof -
  define s where "s = sort xs"
  have ss: "sorted s" and ls: "length s = length xs"
    by (simp_all add: s_def)
  have "filter (\<lambda>x. x = v) s = sort (filter (\<lambda>x. x = v) xs)"
    unfolding s_def by (rule filter_sort)
  then have ms: "length s < 2 * length (filter (\<lambda>x. x = v) s)"
    using m by (simp add: ls)
  from m have pos: "0 < length s" by (cases xs) (simp_all add: ls)
  show ?thesis
  proof (cases "odd (length s)")
    case True
    have "s ! (length s div 2) = v"
      using True pos by (intro sorted_majority_nth [OF ss ms]) (auto elim: oddE)
    with True pos show ?thesis
      by (simp add: median_def Let_def s_def [symmetric])
  next
    case False
    then obtain b where b: "length s = 2 * b"
      by (auto elim: evenE)
    with pos have bp: "0 < b" by simp
    have x: "s ! b = v"
      by (rule sorted_majority_nth [OF ss ms]) (use b bp in simp_all)
    have y: "s ! (b - 1) = v"
      by (rule sorted_majority_nth [OF ss ms]) (use b bp in auto)
    from pos have ne: "s \<noteq> []" by simp
    from b bp x y ne show ?thesis
      by (simp add: median_def Let_def s_def [symmetric])
  qed
qed

lemma length_filter_mono:
  "(\<And>x. P x \<Longrightarrow> Q x) \<Longrightarrow> length (filter P xs) \<le> length (filter Q xs)"
  by (induction xs) auto

lemma mostly_missing_not_qualifying:
  assumes "length xs < 2 * length (filter (\<lambda>x. x = NaN) xs)"
  shows "\<not> ge_5 (median_length (Float64 xs))"
proof -
  have "length (filter (\<lambda>x. x = NaN) xs) \<le> length (filter (\<lambda>x. length (str_float x) = 3) xs)"
    by (rule length_filter_mono) (simp add: str_float_def)
  also have "\<dots> = length (filter (\<lambda>n. n = 3) (apply_len (astype_str (Float64 xs))))"
    by (simp add: apply_len_def filter_map comp_def)
  finally have "length (apply_len (astype_str (Float64 xs)))
      < 2 * length (filter (\<lambda>n. n = 3) (apply_len (astype_str (Float64 xs))))"
    using assms by (simp add: apply_len_def)
  from median_majority [OF this] show ?thesis
    by (simp add: median_length_def ge_5_def)
qed

lemma keep_first_subset: "set (keep_first g seen ps) \<subseteq> set ps"
  by (induction ps arbitrary: seen) auto

lemma normalize_series:
  "(k, s) \<in> set (columns (normalize_columns df)) \<Longrightarrow> \<exists>n. (n, s) \<in> set (columns df) \<and> k = lower n"
  using keep_first_subset [of fst "[]" "columns (lower_columns df)"]
  by (auto simp: normalize_columns_def columns_drop_duplicated lower_columns_def)

lemma wf_normalize: "wf_frame df \<Longrightarrow> wf_frame (normalize_columns df)"
  by (auto simp: wf_frame_def list_all_iff dest!: normalize_series)

lemma loop_body_eq:
  "loop_body read_csv pol st (key, url) =
     (case read_csv url of
        Inl e \<Rightarrow> st\<lparr>printed := printed st @ [ErrorReadingFile key]\<rparr>
      | Inr df \<Rightarrow>
          (let d = normalize_columns df; locs = coordinate_columns d
           in if locs = [] then st\<lparr>printed := printed st @ [NoLocationsFound key]\<rparr>
              else if ''report_id'' \<in> set locs \<and> pol = OverlapRaises
              then st\<lparr>printed := printed st @ [ErrorReadingFile key]\<rparr>
              else st\<lparr>sub_df_list := sub_df_list st @ [melted d key (filter (\<lambda>k. k \<noteq> ''report_id'') locs)],
                      printed := printed st @ [LocationsExtracted key]\<rparr>))"
  by (simp add: loop_body_def try_block_eq Let_def split: sum.splits)

lemma median_length_empty: "len s = 0 \<Longrightarrow> median_length s = None"
  by (cases s) (simp_all add: median_length_def apply_len_def median_def)

lemma ge_5_len_pos: "ge_5 (median_length s) \<Longrightarrow> 0 < len s"
  by (cases "len s = 0") (simp_all add: median_length_empty ge_5_def)

lemma potential_locations_normalize:
  "potential_locations (normalize_columns df) = Inr (coordinate_columns (normalize_columns df))"
  by (rule potential_locations_coordinate_columns) (rule distinct_normalize)

lemma coordinate_columns_nrows_pos:
  assumes "wf_frame d" "coordinate_columns d \<noteq> []"
  shows "0 < nrows d"
proof -
  from assms(2) obtain k where "k \<in> set (coordinate_columns d)"
    by (cases "coordinate_columns d") auto
  then obtain s where s: "(k, s) \<in> set (columns d)" "ge_5 (median_length s)"
    by (auto simp: coordinate_columns_def)
  from s(1) assms(1) have "len s = nrows d"
    by (auto simp: wf_frame_def list_all_iff)
  with ge_5_len_pos [OF s(2)] show ?thesis by simp
qed

lemma no_rows_no_coordinate_columns:
  assumes "wf_frame d" "nrows d = 0"
  shows "coordinate_columns d = []"
  using coordinate_columns_nrows_pos [OF assms(1)] assms(2) by auto

lemma rows_melted_nonempty:
  assumes "wf_frame d" "coordinate_columns d \<noteq> []"
  shows "rows (melted d key (filter (\<lambda>k. k \<noteq> ''report_id'') (coordinate_columns d))) \<noteq> []
           \<longleftrightarrow> (\<exists>k \<in> set (coordinate_columns d). k \<noteq> ''report_id'')"
proof -
  let ?vs = "filter (\<lambda>k. k \<noteq> ''report_id'') (coordinate_columns d)"
  have "rows (melted d key ?vs) \<noteq> [] \<longleftrightarrow> 0 < nrows (melted d key ?vs)"
    by (metis length_rows length_greater_0_conv)
  also have "\<dots> \<longleftrightarrow> 0 < nrows d * length ?vs"
    by (simp add: melted_def)
  also have "\<dots> \<longleftrightarrow> ?vs \<noteq> []"
    using coordinate_columns_nrows_pos [OF assms] by simp
  also have "\<dots> \<longleftrightarrow> (\<exists>k \<in> set (coordinate_columns d). k \<noteq> ''report_id'')"
    by (simp add: filter_empty_conv)
  finally show ?thesis .
qed

section \<open>The median as the mean of the middle values\<close>

lemma sorted_count_le_at:
  fixes xs :: "nat list"
  assumes "sorted xs" "i < length xs"
  shows "Suc i \<le> length (filter (\<lambda>x. x \<le> xs ! i) xs)"
proof -
  have "x \<le> xs ! i" if "x \<in> set (take (Suc i) xs)" for x
  proof -
    from that obtain j where j: "j < Suc i" "j < length xs" "x = xs ! j"
      by (auto simp: in_set_conv_nth)
    with assms show ?thesis
      by (auto intro: sorted_nth_mono)
  qed
  then have e: "filter (\<lambda>x. x \<le> xs ! i) (take (Suc i) xs) = take (Suc i) xs"
    by (simp add: filter_id_conv)
  have "filter (\<lambda>x. x \<le> xs ! i) xs = filter (\<lambda>x. x \<le> xs ! i) (take (Suc i) xs @ drop (Suc i) xs)"
    by simp
  also have "\<dots> = take (Suc i) xs @ filter (\<lambda>x. x \<le> xs ! i) (drop (Suc i) xs)"
    unfolding filter_append e by simp
  finally have "length (filter (\<lambda>x. x \<le> xs ! i) xs)
      = length (take (Suc i) xs @ filter (\<lambda>x. x \<le> xs ! i) (drop (Suc i) xs))"
    by (rule arg_cong)
  with assms(2) show ?thesis by simp
qed

lemma sorted_count_le_below:
  fixes xs :: "nat list"
  assumes "sorted xs" "i < length xs" "v < xs ! i"
  shows "length (filter (\<lambda>x. x \<le> v) xs) \<le> i"
proof -
  have "\<not> x \<le> v" if "x \<in> set (drop i xs)" for x
  proof -
    from that obtain j where j: "j < length xs - i" "x = xs ! (i + j)"
      by (auto simp: in_set_conv_nth)
    with assms have "xs ! i \<le> xs ! (i + j)"
      by (intro sorted_nth_mono) auto
    with j assms(3) show ?thesis by simp
  qed
  then have e: "filter (\<lambda>x. x \<le> v) (drop i xs) = []"
    by (auto simp: filter_empty_conv)
  have "filter (\<lambda>x. x \<le> v) xs = filter (\<lambda>x. x \<le> v) (take i xs @ drop i xs)"
    by simp
  also have "\<dots> = filter (\<lambda>x. x \<le> v) (take i xs)"
    unfolding filter_append e by simp
  finally have "length (filter (\<lambda>x. x \<le> v) xs) = length (filter (\<lambda>x. x \<le> v) (take i xs))"
    by (rule arg_cong)
  also have "\<dots> \<le> length (take i xs)"
    by (rule length_filter_le)
  finally show ?thesis by simp
qed

lemma sorted_count_ge_at:
  fixes xs :: "nat list"
  assumes "sorted xs" "j < length xs"
  shows "length xs - j \<le> length (filter (\<lambda>x. xs ! j \<le> x) xs)"
proof -
  have "xs ! j \<le> x" if "x \<in> set (drop j xs)" for x
  proof -
    from that obtain m where m: "m < length xs - j" "x = xs ! (j + m)"
      by (auto simp: in_set_conv_nth)
    with assms show ?thesis
      by (auto intro: sorted_nth_mono)
  qed
  then have e: "filter (\<lambda>x. xs ! j \<le> x) (drop j xs) = drop j xs"
    by (simp add: filter_id_conv)
  have "filter (\<lambda>x. xs ! j \<le> x) xs = filter (\<lambda>x. xs ! j \<le> x) (take j xs @ drop j xs)"
    by simp
  also have "\<dots> = filter (\<lambda>x. xs ! j \<le> x) (take j xs) @ drop j xs"
    unfolding filter_append e by simp
  finally have "length (filter (\<lambda>x. xs ! j \<le> x) xs)
      = length (filter (\<lambda>x. xs ! j \<le> x) (take j xs) @ drop j xs)"
    by (rule arg_cong)
  then show ?thesis by simp
qed

lemma sorted_count_ge_above:
  fixes xs :: "nat list"
  assumes "sorted xs" "j < length xs" "xs ! j < v"
  shows "length (filter (\<lambda>x. v \<le> x) xs) \<le> length xs - Suc j"
proof -
  have "\<not> v \<le> x" if "x \<in> set (take (Suc j) xs)" for x
  proof -
    from that obtain m where m: "m < Suc j" "m < length xs" "x = xs ! m"
      by (auto simp: in_set_conv_nth)
    with assms have "xs ! m \<le> xs ! j"
      by (intro sorted_nth_mono) auto
    with m assms(3) show ?thesis by simp
  qed
  then have e: "filter (\<lambda>x. v \<le> x) (take (Suc j) xs) = []"
    by (auto simp: filter_empty_conv)
  have "filter (\<lambda>x. v \<le> x) xs = filter (\<lambda>x. v \<le> x) (take (Suc j) xs @ drop (Suc j) xs)"
    by simp
  also have "\<dots> = filter (\<lambda>x. v \<le> x) (drop (Suc j) xs)"
    unfolding filter_append e by simp
  finally have "length (filter (\<lambda>x. v \<le> x) xs) = length (filter (\<lambda>x. v \<le> x) (drop (Suc j) xs))"
    by (rule arg_cong)
  also have "\<dots> \<le> length (drop (Suc j) xs)"
    by (rule length_filter_le)
  finally show ?thesis by simp
qed

lemma middle_values_sorted:
  fixes s :: "nat list"
  assumes ss: "sorted s" and ne: "s \<noteq> []"
  shows "middle_values s a b \<longleftrightarrow> a = s ! ((length s - 1) div 2) \<and> b = s ! (length s div 2)"
proof -
  define n where "n = length s"
  define i where "i = (n - 1) div 2"
  define j where "j = n div 2"
  from ne have np: "0 < n" by (simp add: n_def)
  then have il: "i < length s" and jl: "j < length s"
    unfolding i_def j_def n_def by linarith+
  have i2: "n \<le> 2 * Suc i" and i3: "2 * i < n"
    using np by (auto simp: i_def)
  have j2: "n \<le> 2 * (n - j)" and j3: "2 * (n - Suc j) < n"
    using np by (auto simp: j_def)
  have lo_at: "n \<le> 2 * length (filter (\<lambda>x. x \<le> s ! i) s)"
    by (rule order_trans [OF i2]) (use sorted_count_le_at [OF ss il] in simp)
  have hi_at: "n \<le> 2 * length (filter (\<lambda>x. s ! j \<le> x) s)"
    by (rule order_trans [OF j2]) (use sorted_count_ge_at [OF ss jl] in \<open>simp add: n_def\<close>)
  have lo_least: "s ! i \<le> v" if "n \<le> 2 * length (filter (\<lambda>x. x \<le> v) s)" for v
  proof (rule ccontr)
    assume "\<not> s ! i \<le> v"
    then have "v < s ! i" by simp
    from sorted_count_le_below [OF ss il this] that i3 show False by linarith
  qed
  have hi_greatest: "v \<le> s ! j" if "n \<le> 2 * length (filter (\<lambda>x. v \<le> x) s)" for v
  proof (rule ccontr)
    assume "\<not> v \<le> s ! j"
    then have "s ! j < v" by simp
    from sorted_count_ge_above [OF ss jl this] that j3 show False by (simp add: n_def)
  qed
  have mi: "s ! i \<in> set s" and mj: "s ! j \<in> set s"
    using il jl by simp_all
  show ?thesis
  proof
    assume m: "middle_values s a b"
    then have a: "a \<in> set s" "n \<le> 2 * length (filter (\<lambda>x. x \<le> a) s)"
        "\<forall>v \<in> set s. n \<le> 2 * length (filter (\<lambda>x. x \<le> v) s) \<longrightarrow> a \<le> v"
      and b: "b \<in> set s" "n \<le> 2 * length (filter (\<lambda>x. b \<le> x) s)"
        "\<forall>v \<in> set s. n \<le> 2 * length (filter (\<lambda>x. v \<le> x) s) \<longrightarrow> v \<le> b"
      by (simp_all add: middle_values_def n_def)
    from a(3) mi lo_at have "a \<le> s ! i" by blast
    moreover from lo_least [OF a(2)] have "s ! i \<le> a" .
    moreover from b(3) mj hi_at have "s ! j \<le> b" by blast
    moreover from hi_greatest [OF b(2)] have "b \<le> s ! j" .
    ultimately show "a = s ! ((length s - 1) div 2) \<and> b = s ! (length s div 2)"
      by (simp add: i_def j_def n_def)
  next
    assume "a = s ! ((length s - 1) div 2) \<and> b = s ! (length s div 2)"
    then have ab: "a = s ! i" "b = s ! j"
      by (simp_all add: i_def j_def n_def)
    show "middle_values s a b"
      unfolding middle_values_def ab n_def [symmetric]
      using mi mj lo_at hi_at lo_least hi_greatest by blast
  qed
qed

lemma middle_values_sort: "middle_values (sort ls) a b \<longleftrightarrow> middle_values ls a b"
proof -
  have "length (filter P (sort ls)) = length (filter P ls)" for P :: "nat \<Rightarrow> bool"
    by (simp add: filter_sort)
  then show ?thesis
    by (simp add: middle_values_def)
qed

lemma ge_5_median_iff:
  "ge_5 (median ls) \<longleftrightarrow> (\<exists>a b. middle_values ls a b \<and> 5 \<le> (of_nat a + of_nat b) / (2 :: rat))"
proof (cases "ls = []")
  case True
  then show ?thesis
    by (simp add: median_def ge_5_def middle_values_def)
next
  case False
  define s where "s = sort ls"
  have ss: "sorted s" and ls: "length s = length ls"
    by (simp_all add: s_def)
  from False ls have ne: "s \<noteq> []"
    by (cases s) auto
  have m: "middle_values ls a b \<longleftrightarrow> a = s ! ((length s - 1) div 2) \<and> b = s ! (length s div 2)" for a b
    using middle_values_sorted [OF ss ne, of a b] by (simp add: s_def middle_values_sort)
  from ne have np: "0 < length s" by simp
  have med: "median ls = Some ((of_nat (s ! ((length s - 1) div 2)) + of_nat (s ! (length s div 2))) / 2)"
  proof (cases "odd (length s)")
    case True
    then have "(length s - 1) div 2 = length s div 2"
      by (auto elim: oddE)
    with True ne show ?thesis
      by (simp add: median_def Let_def s_def [symmetric])
  next
    case False
    then obtain c where c: "length s = 2 * c"
      by (auto elim: evenE)
    with np have "0 < c" by simp
    then have "(length s - 1) div 2 = c - 1"
      using c by (cases c) auto
    with False ne c show ?thesis
      by (simp add: median_def Let_def s_def [symmetric])
  qed
  show ?thesis
    by (simp add: med ge_5_def m)
qed

section \<open>The claims\<close>

text \<open>
  C1, as amended. A turn of the loop over a dataset prints exactly one line, which is one
  of "locations extracted", "no locations found" and "error reading file", each with the
  dataset's identifier. When it is "locations extracted", one table is appended, and it
  has a record exactly when some potential location has a name other than
  \<^verbatim>\<open>report_id\<close>; in particular it has one whenever the dataset has a potential
  location not named \<^verbatim>\<open>report_id\<close>. Otherwise nothing is appended.
\<close>

theorem one_outcome_per_dataset:
  assumes wf: "\<And>df. read_csv url = Inr df \<Longrightarrow> wf_frame df"
  shows "\<exists>m. printed (loop_body read_csv pol st (key, url)) = printed st @ [m]
      \<and> (m = LocationsExtracted key \<or> m = NoLocationsFound key \<or> m = ErrorReadingFile key)
      \<and> (if m = LocationsExtracted key
         then \<exists>df locs a. read_csv url = Inr df
                \<and> potential_locations (normalize_columns df) = Inr locs
                \<and> sub_df_list (loop_body read_csv pol st (key, url)) = sub_df_list st @ [a]
                \<and> (rows a \<noteq> [] \<longleftrightarrow> (\<exists>k \<in> set locs. k \<noteq> ''report_id''))
         else sub_df_list (loop_body read_csv pol st (key, url)) = sub_df_list st)"
proof (cases "read_csv url")
  case (Inl e)
  then have "loop_body read_csv pol st (key, url) = st\<lparr>printed := printed st @ [ErrorReadingFile key]\<rparr>"
    by (simp add: loop_body_eq)
  then show ?thesis by simp
next
  case (Inr df)
  let ?d = "normalize_columns df"
  let ?locs = "coordinate_columns ?d"
  have wd: "wf_frame ?d"
    by (rule wf_normalize) (rule wf [OF Inr])
  consider (none) "?locs = []"
    | (raises) "?locs \<noteq> []" "''report_id'' \<in> set ?locs \<and> pol = OverlapRaises"
    | (extracted) "?locs \<noteq> []" "\<not> (''report_id'' \<in> set ?locs \<and> pol = OverlapRaises)"
    by blast
  then show ?thesis
  proof cases
    case none
    with Inr have "loop_body read_csv pol st (key, url) = st\<lparr>printed := printed st @ [NoLocationsFound key]\<rparr>"
      by (simp add: loop_body_eq)
    then show ?thesis by simp
  next
    case raises
    with Inr have "loop_body read_csv pol st (key, url) = st\<lparr>printed := printed st @ [ErrorReadingFile key]\<rparr>"
      by (simp add: loop_body_eq)
    then show ?thesis by simp
  next
    case extracted
    let ?a = "melted ?d key (filter (\<lambda>k. k \<noteq> ''report_id'') ?locs)"
    from extracted Inr have b: "loop_body read_csv pol st (key, url) =
        st\<lparr>sub_df_list := sub_df_list st @ [?a], printed := printed st @ [LocationsExtracted key]\<rparr>"
      by (simp add: loop_body_eq Let_def)
    have r: "rows ?a \<noteq> [] \<longleftrightarrow> (\<exists>k \<in> set ?locs. k \<noteq> ''report_id'')"
      by (rule rows_melted_nonempty [OF wd extracted(1)])
    have "\<exists>df locs a. read_csv url = Inr df
                \<and> potential_locations (normalize_columns df) = Inr locs
                \<and> sub_df_list (loop_body read_csv pol st (key, url)) = sub_df_list st @ [a]
                \<and> (rows a \<noteq> [] \<longleftrightarrow> (\<exists>k \<in> set locs. k \<noteq> ''report_id''))"
    proof (intro exI conjI)
      show "read_csv url = Inr df" by (rule Inr)
      show "potential_locations (normalize_columns df) = Inr ?locs"
        by (rule potential_locations_normalize)
      show "sub_df_list (loop_body read_csv pol st (key, url)) = sub_df_list st @ [?a]"
        by (simp add: b)
      show "rows ?a \<noteq> [] \<longleftrightarrow> (\<exists>k \<in> set ?locs. k \<noteq> ''report_id'')"
        by (rule r)
    qed
    moreover have "printed (loop_body read_csv pol st (key, url)) = printed st @ [LocationsExtracted key]"
      by (simp add: b)
    ultimately show ?thesis by simp
  qed
qed

text \<open>The amended claim at the table of the spec's Scenario 1.\<close>

theorem one_outcome_per_dataset_witness:
  "wf_frame scenario1
   \<and> (\<exists>m. printed (loop_body (\<lambda>url. Inr scenario1) OverlapRaises init_state (''CR000001'', ''s3://a''))
            = printed init_state @ [m]
        \<and> (m = LocationsExtracted ''CR000001'' \<or> m = NoLocationsFound ''CR000001''
             \<or> m = ErrorReadingFile ''CR000001'')
        \<and> (if m = LocationsExtracted ''CR000001''
           then \<exists>df locs a. (Inr scenario1 :: exn + frame) = Inr df
                  \<and> potential_locations (normalize_columns df) = Inr locs
                  \<and> sub_df_list (loop_body (\<lambda>url. Inr scenario1) OverlapRaises init_state (''CR000001'', ''s3://a''))
                      = sub_df_list init_state @ [a]
                  \<and> (rows a \<noteq> [] \<longleftrightarrow> (\<exists>k \<in> set locs. k \<noteq> ''report_id''))
           else sub_df_list (loop_body (\<lambda>url. Inr scenario1) OverlapRaises init_state (''CR000001'', ''s3://a''))
                  = sub_df_list init_state))
   \<and> printed (loop_body (\<lambda>url. Inr scenario1) OverlapRaises init_state (''CR000001'', ''s3://a''))
       = [LocationsExtracted ''CR000001'']
   \<and> potential_locations (normalize_columns scenario1) = Inr [''easting'', ''northing'']"
proof (intro conjI)
  show w: "wf_frame scenario1"
    by (simp add: scenario1_def wf_frame_def)
  have h: "\<And>df. (\<lambda>url. Inr scenario1) ''s3://a'' = Inr df \<Longrightarrow> wf_frame df"
    using w by simp
  from one_outcome_per_dataset
    [where read_csv = "\<lambda>url. Inr scenario1" and url = "''s3://a''" and pol = OverlapRaises
       and st = init_state and key = "''CR000001''", OF h]
  show "\<exists>m. printed (loop_body (\<lambda>url. Inr scenario1) OverlapRaises init_state (''CR000001'', ''s3://a''))
            = printed init_state @ [m]
        \<and> (m = LocationsExtracted ''CR000001'' \<or> m = NoLocationsFound ''CR000001''
             \<or> m = ErrorReadingFile ''CR000001'')
        \<and> (if m = LocationsExtracted ''CR000001''
           then \<exists>df locs a. (Inr scenario1 :: exn + frame) = Inr df
                  \<and> potential_locations (normalize_columns df) = Inr locs
                  \<and> sub_df_list (loop_body (\<lambda>url. Inr scenario1) OverlapRaises init_state (''CR000001'', ''s3://a''))
                      = sub_df_list init_state @ [a]
                  \<and> (rows a \<noteq> [] \<longleftrightarrow> (\<exists>k \<in> set locs. k \<noteq> ''report_id''))
           else sub_df_list (loop_body (\<lambda>url. Inr scenario1) OverlapRaises init_state (''CR000001'', ''s3://a''))
                  = sub_df_list init_state)" .
  show "printed (loop_body (\<lambda>url. Inr scenario1) OverlapRaises init_state (''CR000001'', ''s3://a''))
       = [LocationsExtracted ''CR000001'']"
    by code_simp
  show "potential_locations (normalize_columns scenario1) = Inr [''easting'', ''northing'']"
    by code_simp
qed

text \<open>
  C1 as stated fails on a table whose only long numeric column is named "Report_ID": the
  identifier overwrites that column, the melt takes it out as the identifier column, and
  "locations extracted" is printed for a table with no record (with a pandas whose melt
  selects every column once).
\<close>

theorem report_id_only_extracts_no_record:
  "potential_locations (normalize_columns report_id_only) = Inr [''report_id'']
   \<and> loop_body (\<lambda>url. Inr report_id_only) OverlapSelectedOnce init_state (''CR000004'', ''s3://d'')
       = \<lparr>sub_df_list =
            [\<lparr>nrows = 0,
              columns = [(''report_id'', Object []), (''variable'', Object []), (''value'', Object [])]\<rparr>],
          printed = [LocationsExtracted ''CR000004'']\<rparr>
   \<and> rows \<lparr>nrows = 0,
           columns = [(''report_id'', Object []), (''variable'', Object []), (''value'', Object [])]\<rparr> = []"
  by (intro conjI; code_simp)

text \<open>
  C2. After the column names are normalized, the loop over the numeric columns ends
  without an exception, and a column is among the potential locations if and only if
  it is numeric-typed and the median of the lengths of its values, rendered as text, is
  at least 5: the mean of the two middle values of those lengths is 5 or more. A column
  that is not numeric-typed is never among them. The text of a value has its sign and
  its decimal point, and a missing value is \<^verbatim>\<open>nan\<close>. At the threshold table the
  columns with median 5 and 5.5 qualify, those with median 4.5 and 4 do not, and the
  text column of 5-character values does not.
\<close>

theorem potential_locations_iff_numeric_median_ge_5:
  "(\<exists>locs. potential_locations (normalize_columns df) = Inr locs \<and> distinct locs \<and>
      (\<forall>k. k \<in> set locs \<longleftrightarrow>
         (\<exists>s a b. getitem (normalize_columns df) k = Some s \<and> is_number s \<and>
              middle_values (map length (astype_str s)) a b \<and>
              5 \<le> (of_nat a + of_nat b) / (2 :: rat))))
   \<and> astype_str (Int64 [-1205, 42]) = [''-1205'', ''42'']
   \<and> astype_str (Float64 [Repr ''451234.56'', NaN]) = [''451234.56'', ''nan'']
   \<and> potential_locations (normalize_columns threshold_table) = Inr [''rl'', ''azimuth'', ''lat'']"
proof (intro conjI)
  let ?d = "normalize_columns df"
  have dn: "distinct (map fst (columns ?d))"
    using distinct_normalize [of df] by (simp add: column_names_def)
  have q: "ge_5 (median_length s) \<longleftrightarrow>
             (\<exists>a b. middle_values (map length (astype_str s)) a b \<and> 5 \<le> (of_nat a + of_nat b) / (2 :: rat))" for s
    by (simp add: median_length_def apply_len_def ge_5_median_iff)
  have "k \<in> set (coordinate_columns ?d) \<longleftrightarrow>
          (\<exists>s a b. getitem ?d k = Some s \<and> is_number s \<and>
              middle_values (map length (astype_str s)) a b \<and>
              5 \<le> (of_nat a + of_nat b) / (2 :: rat))" for k
  proof
    assume "k \<in> set (coordinate_columns ?d)"
    then obtain s where s: "(k, s) \<in> set (columns ?d)" "is_number s" "ge_5 (median_length s)"
      by (auto simp: coordinate_columns_def)
    from dn s(1) have "getitem ?d k = Some s"
      by (simp add: getitem_def)
    with s(2) s(3) [unfolded q]
    show "\<exists>s a b. getitem ?d k = Some s \<and> is_number s \<and>
              middle_values (map length (astype_str s)) a b \<and>
              5 \<le> (of_nat a + of_nat b) / (2 :: rat)"
      by blast
  next
    assume "\<exists>s a b. getitem ?d k = Some s \<and> is_number s \<and>
              middle_values (map length (astype_str s)) a b \<and>
              5 \<le> (of_nat a + of_nat b) / (2 :: rat)"
    then obtain s where s: "map_of (columns ?d) k = Some s" "is_number s"
        "\<exists>a b. middle_values (map length (astype_str s)) a b \<and> 5 \<le> (of_nat a + of_nat b) / (2 :: rat)"
      unfolding getitem_def by blast
    from s(3) have g: "ge_5 (median_length s)"
      by (simp only: q)
    from s(1) have "(k, s) \<in> set (columns ?d)" by (rule map_of_SomeD)
    with s(2) g show "k \<in> set (coordinate_columns ?d)"
      by (force simp: coordinate_columns_def)
  qed
  then show "\<exists>locs. potential_locations ?d = Inr locs \<and> distinct locs \<and>
      (\<forall>k. k \<in> set locs \<longleftrightarrow>
         (\<exists>s a b. getitem ?d k = Some s \<and> is_number s \<and>
              middle_values (map length (astype_str s)) a b \<and>
              5 \<le> (of_nat a + of_nat b) / (2 :: rat)))"
    using potential_locations_coordinate_columns [OF distinct_normalize, of df]
      distinct_coordinate_columns [OF distinct_normalize, of df]
    by blast
  show "astype_str (Int64 [-1205, 42]) = [''-1205'', ''42'']"
    by code_simp
  show "astype_str (Float64 [Repr ''451234.56'', NaN]) = [''451234.56'', ''nan'']"
    by code_simp
  show "potential_locations (normalize_columns threshold_table) = Inr [''rl'', ''azimuth'', ''lat'']"
    by code_simp
qed

text \<open>
  The claim at the table of the spec's Scenario 1: "easting", a float column whose one
  value has 9 characters, qualifies, and the text column "hole_id" does not.
\<close>

theorem potential_locations_iff_numeric_median_ge_5_witness:
  "\<exists>locs. potential_locations (normalize_columns scenario1) = Inr locs
     \<and> ''easting'' \<in> set locs \<and> ''hole_id'' \<notin> set locs"
proof -
  from potential_locations_iff_numeric_median_ge_5 [of scenario1, THEN conjunct1]
  obtain locs where l: "potential_locations (normalize_columns scenario1) = Inr locs"
    and i: "\<And>k. k \<in> set locs \<longleftrightarrow>
         (\<exists>s a b. getitem (normalize_columns scenario1) k = Some s \<and> is_number s \<and>
              middle_values (map length (astype_str s)) a b \<and>
              5 \<le> (of_nat a + of_nat b) / (2 :: rat))"
    by blast
  have ge: "getitem (normalize_columns scenario1) ''easting'' = Some (Float64 [Repr ''451234.56''])"
    by code_simp
  have gh: "getitem (normalize_columns scenario1) ''hole_id'' = Some (Object [PyStr ''DH001''])"
    by code_simp
  have m: "middle_values (map length (astype_str (Float64 [Repr ''451234.56'']))) 9 9"
    by (simp add: middle_values_def str_float_def)
  have "''easting'' \<in> set locs"
    unfolding i
  proof (intro exI conjI)
    show "getitem (normalize_columns scenario1) ''easting'' = Some (Float64 [Repr ''451234.56''])"
      by (rule ge)
    show "is_number (Float64 [Repr ''451234.56''])" by simp
    show "middle_values (map length (astype_str (Float64 [Repr ''451234.56'']))) 9 9" by (rule m)
    show "5 \<le> (of_nat 9 + of_nat 9) / (2 :: rat)" by simp
  qed
  moreover have "''hole_id'' \<notin> set locs"
    unfolding i using gh by auto
  ultimately show ?thesis
    using l by blast
qed

text \<open>
  C3. The spec's Scenario 1 run through the loop. "hole_id" is found as an identifier
  column and is put into the working table, but the melt is given only
  \<^verbatim>\<open>report_id\<close> as identifier column: the two records have the fields
  \<^verbatim>\<open>report_id\<close>, \<^verbatim>\<open>variable\<close> and \<^verbatim>\<open>value\<close>, and neither carries "DH001".
\<close>

theorem hole_id_not_on_the_records:
  "potential_ids (normalize_columns scenario1) = [''hole_id'']
   \<and> sub_df_list (loop_body (\<lambda>url. Inr scenario1) OverlapSelectedOnce init_state (''CR000001'', ''s3://a''))
       = [\<lparr>nrows = 2,
           columns = [(''report_id'', Object [PyStr ''CR000001'', PyStr ''CR000001'']),
                      (''variable'', Object [PyStr ''easting'', PyStr ''northing'']),
                      (''value'', Object [PyFloat (Repr ''451234.56''), PyFloat (Repr ''7845321.12'')])]\<rparr>]
   \<and> sub_df_list (loop_body (\<lambda>url. Inr scenario1) OverlapRaises init_state (''CR000001'', ''s3://a''))
       = sub_df_list (loop_body (\<lambda>url. Inr scenario1) OverlapSelectedOnce init_state (''CR000001'', ''s3://a''))
   \<and> rows \<lparr>nrows = 2,
           columns = [(''report_id'', Object [PyStr ''CR000001'', PyStr ''CR000001'']),
                      (''variable'', Object [PyStr ''easting'', PyStr ''northing'']),
                      (''value'', Object [PyFloat (Repr ''451234.56''), PyFloat (Repr ''7845321.12'')])]\<rparr>
       = [[(''report_id'', PyStr ''CR000001''), (''variable'', PyStr ''easting''),
           (''value'', PyFloat (Repr ''451234.56''))],
          [(''report_id'', PyStr ''CR000001''), (''variable'', PyStr ''northing''),
           (''value'', PyFloat (Repr ''7845321.12''))]]"
  by (intro conjI; code_simp)

text \<open>
  C4, as amended. For a dataset with at least one potential location, none of them named
  \<^verbatim>\<open>report_id\<close>, the turn of the loop appends one rectangular table whose number of
  records is the number of potential locations times the number of rows of the dataset.
\<close>

theorem record_count_is_columns_times_rows:
  assumes "read_csv url = Inr df" and "wf_frame df"
    and "potential_locations (normalize_columns df) = Inr locs"
    and "locs \<noteq> []" and "''report_id'' \<notin> set locs"
  shows "\<exists>a. loop_body read_csv pol st (key, url)
              = st\<lparr>sub_df_list := sub_df_list st @ [a], printed := printed st @ [LocationsExtracted key]\<rparr>
           \<and> wf_frame a \<and> length (rows a) = length locs * nrows df"
proof -
  let ?d = "normalize_columns df"
  from assms(3) have l: "coordinate_columns ?d = locs"
    by (simp add: potential_locations_normalize)
  from assms(5) have f: "filter (\<lambda>k. k \<noteq> ''report_id'') locs = locs"
    by (auto simp: filter_id_conv)
  have b: "loop_body read_csv pol st (key, url)
             = st\<lparr>sub_df_list := sub_df_list st @ [melted ?d key locs],
                  printed := printed st @ [LocationsExtracted key]\<rparr>"
    using assms(1,4,5) by (simp add: loop_body_eq l f)
  have "set locs \<subseteq> set (column_names ?d)"
    using coordinate_columns_subset [of ?d] by (simp add: l)
  then have w: "wf_frame (melted ?d key locs)"
    by (intro wf_melted wf_normalize assms(2))
  have "length (rows (melted ?d key locs)) = length locs * nrows df"
    by (simp add: melted_def)
  with b w show ?thesis by blast
qed

text \<open>The amended claim at the table of the spec's Scenario 1: two columns, one row.\<close>

theorem record_count_is_columns_times_rows_witness:
  "wf_frame scenario1
   \<and> potential_locations (normalize_columns scenario1) = Inr [''easting'', ''northing'']
   \<and> (\<exists>a. loop_body (\<lambda>url. Inr scenario1) OverlapSelectedOnce init_state (''CR000001'', ''s3://a'')
              = init_state\<lparr>sub_df_list := sub_df_list init_state @ [a],
                           printed := printed init_state @ [LocationsExtracted ''CR000001'']\<rparr>
           \<and> wf_frame a \<and> length (rows a) = length [''easting'', ''northing''] * nrows scenario1)"
proof -
  have w: "wf_frame scenario1"
    by (simp add: scenario1_def wf_frame_def)
  have r: "(\<lambda>url. Inr scenario1) ''s3://a'' = Inr scenario1"
    by simp
  have l: "potential_locations (normalize_columns scenario1) = Inr [''easting'', ''northing'']"
    by code_simp
  have n: "[''easting'', ''northing''] \<noteq> []" "''report_id'' \<notin> set [''easting'', ''northing'']"
    by simp_all
  from record_count_is_columns_times_rows
    [where read_csv = "\<lambda>url. Inr scenario1" and url = "''s3://a''" and pol = OverlapSelectedOnce
       and st = init_state and key = "''CR000001''", OF r w l n]
  have "\<exists>a. loop_body (\<lambda>url. Inr scenario1) OverlapSelectedOnce init_state (''CR000001'', ''s3://a'')
              = init_state\<lparr>sub_df_list := sub_df_list init_state @ [a],
                           printed := printed init_state @ [LocationsExtracted ''CR000001'']\<rparr>
           \<and> wf_frame a \<and> length (rows a) = length [''easting'', ''northing''] * nrows scenario1" .
  with w l show ?thesis
    by (intro conjI)
qed

text \<open>
  C4 as stated fails on a table with the long numeric columns "Report_ID" and "Easting"
  and two rows: two qualifying columns times two rows is four, but the table appended has
  two records when melt selects every column once, and none is appended when melt
  raises.
\<close>

theorem report_id_column_loses_its_records:
  "potential_locations (normalize_columns report_id_and_easting) = Inr [''report_id'', ''easting'']
   \<and> nrows report_id_and_easting = 2
   \<and> map (\<lambda>a. length (rows a))
        (sub_df_list (loop_body (\<lambda>url. Inr report_id_and_easting) OverlapSelectedOnce init_state
           (''CR000003'', ''s3://c''))) = [2]
   \<and> loop_body (\<lambda>url. Inr report_id_and_easting) OverlapRaises init_state (''CR000003'', ''s3://c'')
       = \<lparr>sub_df_list = [], printed = [ErrorReadingFile ''CR000003'']\<rparr>"
  by (intro conjI; code_simp)

text \<open>
  C5. When the file of a dataset is read and none of its numeric-typed columns has a
  median text length of 5 or more, the turn of the loop prints the "no locations found"
  line with the dataset's identifier and nothing else, and appends nothing to
  \<^verbatim>\<open>sub_df_list\<close>, the list that is concatenated into the combined output. The
  witness is the spec's own example, columns ID = 42 and Depth = 120.
\<close>

theorem no_long_numeric_column_no_locations:
  assumes "read_csv url = Inr df"
    and "\<forall>(k, s) \<in> set (columns df). is_number s \<longrightarrow> \<not> ge_5 (median (apply_len (astype_str s)))"
  shows "loop_body read_csv pol st (key, url) = st\<lparr>printed := printed st @ [NoLocationsFound key]\<rparr>
         \<and> sub_df_list (loop_body read_csv pol st (key, url)) = sub_df_list st"
proof -
  have "coordinate_columns (normalize_columns df) = []"
  proof (rule ccontr)
    assume "coordinate_columns (normalize_columns df) \<noteq> []"
    then obtain k where "k \<in> set (coordinate_columns (normalize_columns df))"
      by (cases "coordinate_columns (normalize_columns df)") auto
    then obtain s where s: "(k, s) \<in> set (columns (normalize_columns df))" "is_number s" "ge_5 (median_length s)"
      by (auto simp: coordinate_columns_def)
    from normalize_series [OF s(1)] obtain n where "(n, s) \<in> set (columns df)" by blast
    with assms(2) s(2,3) show False
      by (auto simp: median_length_def)
  qed
  with assms(1) show ?thesis
    by (simp add: loop_body_eq)
qed

text \<open>The claim at the table of the spec's Scenario 2.\<close>

theorem no_long_numeric_column_no_locations_witness:
  "loop_body (\<lambda>url. Inr scenario2) OverlapSelectedOnce init_state (''CR000002'', ''s3://a'')
     = \<lparr>sub_df_list = [], printed = [NoLocationsFound ''CR000002'']\<rparr>"
proof -
  have h: "\<forall>(k, s) \<in> set (columns scenario2). is_number s \<longrightarrow> \<not> ge_5 (median (apply_len (astype_str s)))"
    by code_simp
  have r: "(\<lambda>url. Inr scenario2) ''s3://a'' = Inr scenario2"
    by simp
  from no_long_numeric_column_no_locations [OF r h, of OverlapSelectedOnce init_state "''CR000002''"]
  show ?thesis
    by (simp add: init_state_def)
qed

text \<open>
  C6. When reading the file of a dataset raises, the run prints the "error reading file"
  line with that dataset's identifier, the dataset adds no table to
  \<^verbatim>\<open>sub_df_list\<close>, and the datasets before and after it are processed as they would
  be on their own: their lines and their tables are those of the runs over them alone.
\<close>

theorem unreadable_file_reported_and_skipped:
  assumes "read_csv url = Inl e"
  shows "printed (stage3 read_csv pol (before @ (key, url) # after))
           = printed (stage3 read_csv pol before) @ [ErrorReadingFile key] @ printed (stage3 read_csv pol after)
         \<and> sub_df_list (stage3 read_csv pol (before @ (key, url) # after))
           = sub_df_list (stage3 read_csv pol before) @ sub_df_list (stage3 read_csv pol after)"
proof -
  let ?s = "stage3_from read_csv pol init_state before"
  have b: "loop_body read_csv pol ?s (key, url) = ?s\<lparr>printed := printed ?s @ [ErrorReadingFile key]\<rparr>"
    using assms by (simp add: loop_body_eq)
  have "stage3_from read_csv pol init_state (before @ (key, url) # after)
          = stage3_from read_csv pol (?s\<lparr>printed := printed ?s @ [ErrorReadingFile key]\<rparr>) after"
    using b by (simp add: stage3_from_def)
  also have "\<dots> = (?s\<lparr>printed := printed ?s @ [ErrorReadingFile key]\<rparr>)
      \<lparr>sub_df_list := sub_df_list ?s @ sub_df_list (stage3_from read_csv pol init_state after),
       printed := (printed ?s @ [ErrorReadingFile key]) @ printed (stage3_from read_csv pol init_state after)\<rparr>"
    by (subst stage3_from_additive) simp
  finally show ?thesis
    by (simp add: stage3_def init_state_def)
qed

text \<open>The claim at a run over three datasets whose second file cannot be read.\<close>

theorem unreadable_file_reported_and_skipped_witness:
  "printed (stage3 unreadable_second OverlapRaises
       [(''CR000001'', ''s3://a''), (''CR000002'', ''s3://b''), (''CR000003'', ''s3://c'')])
     = [LocationsExtracted ''CR000001'', ErrorReadingFile ''CR000002'', LocationsExtracted ''CR000003'']
   \<and> length (sub_df_list (stage3 unreadable_second OverlapRaises
       [(''CR000001'', ''s3://a''), (''CR000002'', ''s3://b''), (''CR000003'', ''s3://c'')])) = 2"
proof -
  have h: "unreadable_second ''s3://b'' = Inl ReadError"
    by (simp add: unreadable_second_def)
  have a: "printed (stage3 unreadable_second OverlapRaises [(''CR000001'', ''s3://a'')]) = [LocationsExtracted ''CR000001'']"
    by code_simp
  have c: "printed (stage3 unreadable_second OverlapRaises [(''CR000003'', ''s3://c'')]) = [LocationsExtracted ''CR000003'']"
    by code_simp
  have a': "length (sub_df_list (stage3 unreadable_second OverlapRaises [(''CR000001'', ''s3://a'')])) = 1"
    by code_simp
  have c': "length (sub_df_list (stage3 unreadable_second OverlapRaises [(''CR000003'', ''s3://c'')])) = 1"
    by code_simp
  from unreadable_file_reported_and_skipped
    [where read_csv = unreadable_second and url = "''s3://b''" and pol = OverlapRaises
       and before = "[(''CR000001'', ''s3://a'')]" and key = "''CR000002''"
       and after = "[(''CR000003'', ''s3://c'')]", OF h]
  show ?thesis
    by (simp add: a c a' c')
qed


text \<open>
  C8. Every record (row) of every table that a turn of the loop appends for a dataset
  carries that dataset's identifier in its \<^verbatim>\<open>report_id\<close> field.
\<close>

theorem record_carries_report_id:
  assumes "sub_df_list (loop_body read_csv pol st (key, url)) = sub_df_list st @ new"
    and "a \<in> set new" and "r \<in> set (rows a)"
  shows "map_of r ''report_id'' = Some (PyStr key)"
proof -
  from assms(1,2) have "a \<in> set (sub_df_list (loop_body read_csv pol init_state (key, url)))"
    by (subst (asm) loop_body_additive) simp
  then obtain d vs where "a = melted d key vs"
    by (auto simp: loop_body_eq init_state_def Let_def split: sum.splits if_splits)
  with assms(3) show ?thesis
    by (simp add: rows_melted_report_id)
qed

text \<open>The claim at the table of the spec's Scenario 1.\<close>

theorem record_carries_report_id_witness:
  "sub_df_list (loop_body (\<lambda>url. Inr scenario1) OverlapRaises init_state (''CR000001'', ''s3://a''))
     = sub_df_list init_state @
       [\<lparr>nrows = 2,
         columns = [(''report_id'', Object [PyStr ''CR000001'', PyStr ''CR000001'']),
                    (''variable'', Object [PyStr ''easting'', PyStr ''northing'']),
                    (''value'', Object [PyFloat (Repr ''451234.56''), PyFloat (Repr ''7845321.12'')])]\<rparr>]
   \<and> map (\<lambda>r. map_of r ''report_id'')
        (rows \<lparr>nrows = 2,
         columns = [(''report_id'', Object [PyStr ''CR000001'', PyStr ''CR000001'']),
                    (''variable'', Object [PyStr ''easting'', PyStr ''northing'']),
                    (''value'', Object [PyFloat (Repr ''451234.56''), PyFloat (Repr ''7845321.12'')])]\<rparr>)
     = [Some (PyStr ''CR000001''), Some (PyStr ''CR000001'')]"
proof -
  let ?a = "\<lparr>nrows = 2,
         columns = [(''report_id'', Object [PyStr ''CR000001'', PyStr ''CR000001'']),
                    (''variable'', Object [PyStr ''easting'', PyStr ''northing'']),
                    (''value'', Object [PyFloat (Repr ''451234.56''), PyFloat (Repr ''7845321.12'')])]\<rparr>"
  have e: "sub_df_list (loop_body (\<lambda>url. Inr scenario1) OverlapRaises init_state (''CR000001'', ''s3://a''))
             = sub_df_list init_state @ [?a]"
    by code_simp
  have rs: "rows ?a = [[(''report_id'', PyStr ''CR000001''), (''variable'', PyStr ''easting''), (''value'', PyFloat (Repr ''451234.56''))],
                       [(''report_id'', PyStr ''CR000001''), (''variable'', PyStr ''northing''), (''value'', PyFloat (Repr ''7845321.12''))]]"
    by code_simp
  have "\<And>r. r \<in> set (rows ?a) \<Longrightarrow> map_of r ''report_id'' = Some (PyStr ''CR000001'')"
    by (rule record_carries_report_id [OF e]) simp_all
  then have "map (\<lambda>r. map_of r ''report_id'') (rows ?a) = map (\<lambda>r. Some (PyStr ''CR000001'')) (rows ?a)"
    by (intro map_cong) auto
  with e show ?thesis
    by (simp add: rs)
qed

text \<open>
  C9, as amended. The candidate columns are exactly the numeric-typed columns and the
  identifier columns are exactly the columns whose name contains "hole". The two tests
  are independent: a column is in both classes exactly when it is numeric-typed and its
  name contains "hole".
\<close>

theorem numeric_and_hole_columns_independent:
  "(k \<in> set (numbered_columns (normalize_columns df))
      \<longleftrightarrow> (\<exists>s. getitem (normalize_columns df) k = Some s \<and> is_number s))
   \<and> (k \<in> set (potential_ids (normalize_columns df))
      \<longleftrightarrow> k \<in> set (column_names (normalize_columns df)) \<and> contains (lower k) ''hole'')
   \<and> (k \<in> set (numbered_columns (normalize_columns df)) \<inter> set (potential_ids (normalize_columns df))
      \<longleftrightarrow> (\<exists>s. getitem (normalize_columns df) k = Some s \<and> is_number s \<and> contains (lower k) ''hole''))"
proof -
  let ?d = "normalize_columns df"
  have dn: "distinct (map fst (columns ?d))"
    using distinct_normalize [of df] by (simp add: column_names_def)
  have n: "k \<in> set (numbered_columns ?d) \<longleftrightarrow> (\<exists>s. getitem ?d k = Some s \<and> is_number s)"
  proof
    assume "k \<in> set (numbered_columns ?d)"
    then obtain s where "(k, s) \<in> set (columns ?d)" "is_number s"
      by (auto simp: numbered_columns_def select_dtypes_number_def)
    with dn show "\<exists>s. getitem ?d k = Some s \<and> is_number s"
      by (auto simp: getitem_def)
  next
    assume "\<exists>s. getitem ?d k = Some s \<and> is_number s"
    then obtain s where s: "map_of (columns ?d) k = Some s" "is_number s"
      by (auto simp: getitem_def)
    from s(1) have "(k, s) \<in> set (columns ?d)" by (rule map_of_SomeD)
    with s(2) show "k \<in> set (numbered_columns ?d)"
      by (force simp: numbered_columns_def select_dtypes_number_def)
  qed
  have i: "k \<in> set (potential_ids ?d) \<longleftrightarrow> k \<in> set (column_names ?d) \<and> contains (lower k) ''hole''"
    by (auto simp: potential_ids_def)
  have "getitem ?d k = Some s \<Longrightarrow> k \<in> set (column_names ?d)" for s
    by (auto simp: getitem_def column_names_def dest!: map_of_SomeD intro: rev_image_eqI)
  with n i show ?thesis by auto
qed

text \<open>
  C9 as stated fails: the integer column "Hole_No" is a candidate and an identifier
  column at once, and the text column "Comments" is neither.
\<close>

theorem numeric_hole_column_in_both_classes:
  "numbered_columns (normalize_columns hole_numbers) = [''hole_no'', ''easting'']
   \<and> potential_ids (normalize_columns hole_numbers) = [''hole_no'']
   \<and> column_names (normalize_columns hole_numbers) = [''hole_no'', ''easting'', ''comments'']"
  by (intro conjI; code_simp)

text \<open>
  C10, as amended. A missing value of a float column is rendered as the three characters
  \<^verbatim>\<open>nan\<close> and its length 3 is counted in the median. A float column in which more
  than half of the values are missing is never among the potential locations, however
  long its other values are. A dataset with no rows has no potential location and gets
  the "no locations found" line.
\<close>

theorem mostly_missing_column_never_qualifies:
  "apply_len (astype_str (Float64 xs)) = map (\<lambda>x. case x of Repr r \<Rightarrow> length r | NaN \<Rightarrow> 3) xs
   \<and> (getitem (normalize_columns df) k = Some (Float64 xs)
        \<and> length xs < 2 * length (filter (\<lambda>x. x = NaN) xs)
      \<longrightarrow> (\<exists>locs. potential_locations (normalize_columns df) = Inr locs \<and> k \<notin> set locs))
   \<and> (read_csv url = Inr df \<and> wf_frame df \<and> nrows df = 0
      \<longrightarrow> loop_body read_csv pol st (key, url) = st\<lparr>printed := printed st @ [NoLocationsFound key]\<rparr>)"
proof (intro conjI impI)
  show "apply_len (astype_str (Float64 xs)) = map (\<lambda>x. case x of Repr r \<Rightarrow> length r | NaN \<Rightarrow> 3) xs"
    by (auto simp: apply_len_def str_float_def split: float64.splits)
next
  assume a: "getitem (normalize_columns df) k = Some (Float64 xs)
        \<and> length xs < 2 * length (filter (\<lambda>x. x = NaN) xs)"
  let ?d = "normalize_columns df"
  have dn: "distinct (map fst (columns ?d))"
    using distinct_normalize [of df] by (simp add: column_names_def)
  have "k \<notin> set (coordinate_columns ?d)"
  proof
    assume "k \<in> set (coordinate_columns ?d)"
    then obtain s where s: "(k, s) \<in> set (columns ?d)" "ge_5 (median_length s)"
      by (auto simp: coordinate_columns_def)
    from dn s(1) have "map_of (columns ?d) k = Some s" by simp
    with a have "s = Float64 xs" by (simp add: getitem_def)
    with s(2) mostly_missing_not_qualifying [of xs] a show False by simp
  qed
  then show "\<exists>locs. potential_locations ?d = Inr locs \<and> k \<notin> set locs"
    by (simp add: potential_locations_normalize)
next
  assume a: "read_csv url = Inr df \<and> wf_frame df \<and> nrows df = 0"
  then have "coordinate_columns (normalize_columns df) = []"
    by (intro no_rows_no_coordinate_columns wf_normalize) simp_all
  with a show "loop_body read_csv pol st (key, url) = st\<lparr>printed := printed st @ [NoLocationsFound key]\<rparr>"
    by (simp add: loop_body_eq)
qed

text \<open>
  The amended claim at a column with two of three values missing and at a table with no
  rows.
\<close>

theorem mostly_missing_column_never_qualifies_witness:
  "getitem (normalize_columns mostly_missing) ''east'' = Some (Float64 [NaN, Repr ''1234567.89'', NaN])
   \<and> length [NaN, Repr ''1234567.89'', NaN] < 2 * count_list [NaN, Repr ''1234567.89'', NaN] NaN
   \<and> (\<exists>locs. potential_locations (normalize_columns mostly_missing) = Inr locs \<and> ''east'' \<notin> set locs)
   \<and> wf_frame no_rows \<and> nrows no_rows = 0
   \<and> loop_body (\<lambda>url. Inr no_rows) OverlapSelectedOnce init_state (''CR000005'', ''s3://e'')
       = init_state\<lparr>printed := printed init_state @ [NoLocationsFound ''CR000005'']\<rparr>"
proof -
  have g: "getitem (normalize_columns mostly_missing) ''east'' = Some (Float64 [NaN, Repr ''1234567.89'', NaN])"
    by code_simp
  have c: "length [NaN, Repr ''1234567.89'', NaN] < 2 * length (filter (\<lambda>x. x = NaN) [NaN, Repr ''1234567.89'', NaN])"
    by simp
  have c': "length [NaN, Repr ''1234567.89'', NaN] < 2 * count_list [NaN, Repr ''1234567.89'', NaN] NaN"
    by simp
  have w: "wf_frame no_rows" "nrows no_rows = 0"
    by (simp_all add: no_rows_def wf_frame_def)
  have r: "(\<lambda>url. Inr no_rows) ''s3://e'' = Inr no_rows"
    by simp
  have a: "\<exists>locs. potential_locations (normalize_columns mostly_missing) = Inr locs \<and> ''east'' \<notin> set locs"
    by (rule mp [OF mostly_missing_column_never_qualifies
          [where xs = "[NaN, Repr ''1234567.89'', NaN]" and df = mostly_missing and k = "''east''",
            THEN conjunct2, THEN conjunct1]])
      (intro conjI g c)
  have b: "loop_body (\<lambda>url. Inr no_rows) OverlapSelectedOnce init_state (''CR000005'', ''s3://e'')
       = init_state\<lparr>printed := printed init_state @ [NoLocationsFound ''CR000005'']\<rparr>"
    by (rule mp [OF mostly_missing_column_never_qualifies
          [where df = no_rows and read_csv = "\<lambda>url. Inr no_rows" and url = "''s3://e''"
             and pol = OverlapSelectedOnce and st = init_state and key = "''CR000005''",
            THEN conjunct2, THEN conjunct2]])
      (intro conjI r w)
  from g c' a w b show ?thesis
    by (intro conjI)
qed

text \<open>
  C10 as stated fails when exactly half of the values are missing: with one missing value
  and one value of ten characters the median length is (3 + 10) / 2 = 6.5, and the column
  is a potential location.
\<close>

theorem half_missing_column_qualifies:
  "columns half_missing = [(''east'', Float64 [NaN, Repr ''1234567.89''])]
   \<and> count_list [NaN, Repr ''1234567.89''] NaN * 2 = length [NaN, Repr ''1234567.89'']
   \<and> median_length (Float64 [NaN, Repr ''1234567.89'']) = Some (13 / 2)
   \<and> potential_locations (normalize_columns half_missing) = Inr [''east'']"
  by (intro conjI; code_simp)

end
